(* ===== verification/Tank_Prelude.thy ===== *)
theory Tank_Prelude
  imports Main "HOL-Library.Monad_Syntax" "HOL-Library.Multiset"
begin

text \<open>
  Shared vocabulary of the tank-game model (\<^verbatim>\<open>src/TankGame.py\<close>): the board
  constants of the module header, Python list indexing and assignment with their
  \<open>IndexError\<close> written as \<open>None\<close>, Python's \<open>range\<close> over \<open>int\<close>, and the
  generic lemmas on them that the component theories use through \<open>simp\<close>.
  Python integers are unbounded, so every coordinate is an \<open>int\<close>; list positions
  are \<open>nat\<close> only after a bounds check.
\<close>

named_theorems board_defs \<open>the board constants of the module header, unfolded\<close>
named_theorems py_simps \<open>evaluation rules of the Python list operations\<close>

section \<open>Board constants (module header)\<close>

definition TILE_SIZE :: int where [board_defs]: "TILE_SIZE = 40"
definition ROWS :: int where [board_defs]: "ROWS = 15"
definition COLS :: int where [board_defs]: "COLS = 15"
definition SCREEN_WIDTH :: int where [board_defs]: "SCREEN_WIDTH = COLS * TILE_SIZE"
definition SCREEN_HEIGHT :: int where [board_defs]: "SCREEN_HEIGHT = ROWS * TILE_SIZE"

declare board_defs [simp]

text \<open>A maze is the list of rows \<open>maze[y][x]\<close>; a cell holds \<open>0\<close> (open) or \<open>1\<close> (wall).\<close>

type_synonym maze = "int list list"
type_synonym cell = "int \<times> int"

section \<open>Python lists\<close>

text \<open>
  The position a Python index \<open>i\<close> denotes in a list of length \<open>len\<close>: an index
  below zero counts back from the end, and a position outside the list is the
  \<open>IndexError\<close> of the subscript, \<open>None\<close>.
\<close>

definition py_index :: "nat \<Rightarrow> int \<Rightarrow> int option" where
  "py_index len i =
     (let k = (if 0 \<le> i then i else int len + i)
      in if 0 \<le> k \<and> k < int len then Some k else None)"

text \<open>\<open>xs[i]\<close> and the assignment \<open>xs[i] = v\<close>.\<close>

definition py_get :: "'a list \<Rightarrow> int \<Rightarrow> 'a option" where
  "py_get xs i = map_option (\<lambda>k. xs ! nat k) (py_index (length xs) i)"

definition py_set :: "'a list \<Rightarrow> int \<Rightarrow> 'a \<Rightarrow> 'a list option" where
  "py_set xs i v = map_option (\<lambda>k. xs[nat k := v]) (py_index (length xs) i)"

text \<open>\<open>range(a, b)\<close> on integers: \<open>a, a + 1, \<dots>, b - 1\<close>, empty when \<open>b \<le> a\<close>.\<close>

definition py_range :: "int \<Rightarrow> int \<Rightarrow> int list" where
  "py_range a b = [a..b - 1]"

lemma py_get_nonneg [py_simps]:
  "0 \<le> i \<Longrightarrow> py_get xs i = (if i < int (length xs) then Some (xs ! nat i) else None)"
  by (simp add: py_get_def py_index_def)

lemma py_set_nonneg [py_simps]:
  "0 \<le> i \<Longrightarrow> py_set xs i v = (if i < int (length xs) then Some (xs[nat i := v]) else None)"
  by (simp add: py_set_def py_index_def)

lemma py_get_Some_iff_nonneg:
  "0 \<le> i \<Longrightarrow> (py_get xs i \<noteq> None) = (i < int (length xs))"
  by (simp add: py_get_nonneg)

lemma py_get_py_set_same:
  "0 \<le> i \<Longrightarrow> py_set xs i v = Some ys \<Longrightarrow> py_get ys i = Some v"
  by (auto simp: py_simps split: if_splits)

lemma py_get_py_set_other:
  "0 \<le> i \<Longrightarrow> 0 \<le> j \<Longrightarrow> i \<noteq> j \<Longrightarrow> py_set xs i v = Some ys \<Longrightarrow> py_get ys j = py_get xs j"
  by (auto simp: py_simps nat_eq_iff split: if_splits)

lemma length_py_set:
  "py_set xs i v = Some ys \<Longrightarrow> length ys = length xs"
  by (auto simp: py_set_def py_index_def Let_def split: if_splits)

lemma set_py_range [simp]: "set (py_range a b) = {a..<b}"
  by (auto simp: py_range_def)

lemma length_py_range [simp]: "length (py_range a b) = nat (b - a)"
  by (simp add: py_range_def)

lemma py_range_empty [simp]: "b \<le> a \<Longrightarrow> py_range a b = []"
  by (simp add: py_range_def)

section \<open>Options\<close>

lemma bind_eq_Some_pair:
  "(do { (a, b) \<leftarrow> m; f a b } = Some r) = (\<exists>a b. m = Some (a, b) \<and> f a b = Some r)"
  by (cases m) auto

declare bind_eq_Some_pair [simp]

end
