(* ===== verification/Maze.thy ===== *)
theory Maze
  imports Tank_Prelude
begin

text \<open>
  The maze of \<^verbatim>\<open>generate_maze\<close> (\<^verbatim>\<open>src/TankGame.py\<close>, lines 84--91): an all-open
  \<open>ROWS \<times> COLS\<close> grid in which 20 randomly drawn cells are set to \<open>1\<close>.
  \<open>random.randint\<close> is the oracle \<open>rnd\<close>: its \<open>i\<close>-th value is the pair
  \<open>(wall_x, wall_y)\<close> drawn in iteration \<open>i\<close>. Cell access \<open>maze[y][x]\<close> is
  \<open>maze_get\<close>, with Python's index rules.
\<close>

section \<open>Definitions\<close>

definition maze_get :: "maze \<Rightarrow> int \<Rightarrow> int \<Rightarrow> int option" where
  "maze_get m x y = do { row \<leftarrow> py_get m y; py_get row x }"

definition maze_set :: "maze \<Rightarrow> int \<Rightarrow> int \<Rightarrow> int \<Rightarrow> maze option" where
  "maze_set m x y v = do { row \<leftarrow> py_get m y; row' \<leftarrow> py_set row x v; py_set m y row' }"

definition empty_maze :: maze where
  "empty_maze = map (\<lambda>_. map (\<lambda>_. 0) (py_range 0 COLS)) (py_range 0 ROWS)"

fun place_walls :: "maze \<Rightarrow> cell list \<Rightarrow> maze option" where
  "place_walls m [] = Some m"
| "place_walls m ((wall_x, wall_y) # ws) = do { m' \<leftarrow> maze_set m wall_x wall_y 1; place_walls m' ws }"

definition wall_picks :: "(nat \<Rightarrow> cell) \<Rightarrow> cell list" where
  "wall_picks rnd = map rnd [0..<20]"

definition generate_maze :: "(nat \<Rightarrow> cell) \<Rightarrow> maze option" where
  "generate_maze rnd = place_walls empty_maze (wall_picks rnd)"

text \<open>What \<open>random.randint(0, COLS - 1)\<close> and \<open>random.randint(0, ROWS - 1)\<close> can return.\<close>

definition valid_rnd :: "(nat \<Rightarrow> cell) \<Rightarrow> bool" where
  "valid_rnd rnd \<longleftrightarrow>
     (\<forall>(x, y) \<in> set (wall_picks rnd). 0 \<le> x \<and> x \<le> COLS - 1 \<and> 0 \<le> y \<and> y \<le> ROWS - 1)"

section \<open>Well-formed mazes\<close>

definition in_grid :: "int \<Rightarrow> int \<Rightarrow> bool" where
  "in_grid x y \<longleftrightarrow> 0 \<le> x \<and> x < COLS \<and> 0 \<le> y \<and> y < ROWS"

definition grid_cells :: "cell list" where
  "grid_cells = [(x, y). y \<leftarrow> py_range 0 ROWS, x \<leftarrow> py_range 0 COLS]"

definition wf_maze :: "maze \<Rightarrow> bool" where
  "wf_maze m \<longleftrightarrow> int (length m) = ROWS \<and>
     (\<forall>row \<in> set m. int (length row) = COLS \<and> (\<forall>c \<in> set row. c = 0 \<or> c = 1))"

definition is_wall :: "maze \<Rightarrow> cell \<Rightarrow> bool" where
  "is_wall m c \<longleftrightarrow> maze_get m (fst c) (snd c) = Some 1"

definition walls :: "maze \<Rightarrow> cell list" where
  "walls m = filter (is_wall m) grid_cells"

section \<open>Cell access on a well-formed maze\<close>

lemma in_grid_nat:
  "in_grid x y \<Longrightarrow> nat x < 15 \<and> nat y < 15 \<and> 0 \<le> x \<and> 0 \<le> y \<and> x < 15 \<and> y < 15"
  by (auto simp: in_grid_def)

lemma wf_maze_length: "wf_maze m \<Longrightarrow> length m = 15"
  by (simp add: wf_maze_def)

lemma wf_maze_row:
  assumes "wf_maze m" and "in_grid x y"
  shows "length (m ! nat y) = 15 \<and> (\<forall>c \<in> set (m ! nat y). c = 0 \<or> c = 1)"
proof -
  have "nat y < length m"
    using wf_maze_length [OF assms(1)] in_grid_nat [OF assms(2)] by simp
  then have "m ! nat y \<in> set m" by (rule nth_mem)
  with assms(1) show ?thesis unfolding wf_maze_def by simp
qed

lemma maze_get_wf:
  assumes "wf_maze m" and "in_grid x y"
  shows "maze_get m x y = Some (m ! nat y ! nat x)"
proof -
  have g: "nat x < 15" "nat y < 15" "0 \<le> x" "0 \<le> y"
    using in_grid_nat [OF assms(2)] by auto
  have "py_get m y = Some (m ! nat y)"
    using g wf_maze_length [OF assms(1)] by (simp add: py_simps)
  moreover have "py_get (m ! nat y) x = Some (m ! nat y ! nat x)"
    using g wf_maze_row [OF assms] by (simp add: py_simps)
  ultimately show ?thesis by (simp add: maze_get_def)
qed

lemma maze_get_cell_cases:
  assumes "wf_maze m" and "in_grid x y"
  shows "maze_get m x y = Some 0 \<or> maze_get m x y = Some 1"
proof -
  have "nat x < length (m ! nat y)"
    using wf_maze_row [OF assms] in_grid_nat [OF assms(2)] by simp
  then have "m ! nat y ! nat x \<in> set (m ! nat y)" by (rule nth_mem)
  with wf_maze_row [OF assms] show ?thesis by (simp add: maze_get_wf [OF assms])
qed

lemma maze_get_not_wall:
  "wf_maze m \<Longrightarrow> in_grid x y \<Longrightarrow> maze_get m x y \<noteq> Some 1 \<Longrightarrow> maze_get m x y = Some 0"
  using maze_get_cell_cases by blast

lemma maze_set_wf:
  assumes "wf_maze m" and "in_grid x y"
  shows "maze_set m x y v = Some (m[nat y := (m ! nat y)[nat x := v]])"
proof -
  have g: "nat x < 15" "nat y < 15" "0 \<le> x" "0 \<le> y" "x < 15" "y < 15"
    using in_grid_nat [OF assms(2)] by auto
  show ?thesis
    using g wf_maze_length [OF assms(1)] wf_maze_row [OF assms]
    by (simp add: maze_set_def py_simps)
qed

lemma wf_maze_update:
  assumes "wf_maze m" and "in_grid x y" and "v = 0 \<or> v = 1"
  shows "wf_maze (m[nat y := (m ! nat y)[nat x := v]])"
proof -
  let ?r = "(m ! nat y)[nat x := v]"
  have row: "int (length ?r) = COLS" "\<forall>c \<in> set ?r. c = 0 \<or> c = 1"
    using wf_maze_row [OF assms(1,2)] assms(3) set_update_subset_insert [of "m ! nat y" "nat x" v]
    by auto
  have "set (m[nat y := ?r]) \<subseteq> insert ?r (set m)"
    by (rule set_update_subset_insert)
  with row assms(1) show ?thesis
    unfolding wf_maze_def by auto
qed

lemma maze_get_update:
  assumes "wf_maze m" and "in_grid x y" and "in_grid x' y'"
  shows "maze_get (m[nat y := (m ! nat y)[nat x := v]]) x' y' =
           (if (x', y') = (x, y) then Some v else maze_get m x' y')"
proof -
  have wf': "wf_maze (m[nat y := (m ! nat y)[nat x := 0]])"
    using wf_maze_update [OF assms(1,2)] by simp
  have g: "nat x < 15" "nat y < 15" "0 \<le> x" "0 \<le> y" "nat x' < 15" "nat y' < 15" "0 \<le> x'" "0 \<le> y'"
    using in_grid_nat [OF assms(2)] in_grid_nat [OF assms(3)] by auto
  have l: "length (m ! nat y) = 15" "length (m ! nat y') = 15" "length m = 15"
    using wf_maze_row [OF assms(1,2)] wf_maze_row [OF assms(1,3)] wf_maze_length [OF assms(1)] by auto
  show ?thesis
    using g l by (auto simp: maze_get_def py_simps maze_get_wf [OF assms(1,3)] nth_list_update nat_eq_iff)
qed

section \<open>The generated maze\<close>

lemma wf_empty_maze: "wf_maze empty_maze"
  by (auto simp: wf_maze_def empty_maze_def)

lemma maze_get_empty_maze:
  assumes "in_grid x y"
  shows "maze_get empty_maze x y = Some 0"
proof -
  have "maze_get empty_maze x y = Some (empty_maze ! nat y ! nat x)"
    by (rule maze_get_wf [OF wf_empty_maze assms])
  also have "empty_maze ! nat y ! nat x = 0"
    using in_grid_nat [OF assms] by (simp add: empty_maze_def)
  finally show ?thesis .
qed

lemma place_walls_spec:
  assumes "wf_maze m" and "\<forall>(x, y) \<in> set ws. in_grid x y"
  shows "\<exists>m'. place_walls m ws = Some m' \<and> wf_maze m' \<and>
           (\<forall>x y. in_grid x y \<longrightarrow>
              maze_get m' x y = (if (x, y) \<in> set ws then Some 1 else maze_get m x y))"
  using assms
proof (induction ws arbitrary: m)
  case Nil
  then show ?case by simp
next
  case (Cons w ws)
  obtain wx wy where w: "w = (wx, wy)" by (cases w)
  let ?m1 = "m[nat wy := (m ! nat wy)[nat wx := 1]]"
  have g: "in_grid wx wy" using Cons.prems(2) w by simp
  have set1: "maze_set m wx wy 1 = Some ?m1"
    by (rule maze_set_wf [OF Cons.prems(1) g])
  have wf1: "wf_maze ?m1"
    using wf_maze_update [OF Cons.prems(1) g] by simp
  obtain m' where m': "place_walls ?m1 ws = Some m'" "wf_maze m'"
    and get': "\<forall>x y. in_grid x y \<longrightarrow>
              maze_get m' x y = (if (x, y) \<in> set ws then Some 1 else maze_get ?m1 x y)"
    using Cons.IH [OF wf1] Cons.prems(2) by auto
  have "\<forall>x y. in_grid x y \<longrightarrow>
          maze_get m' x y = (if (x, y) \<in> set (w # ws) then Some 1 else maze_get m x y)"
    using get' maze_get_update [OF Cons.prems(1) g] w by auto
  with m' set1 w show ?case by auto
qed

lemma valid_rnd_in_grid:
  "valid_rnd rnd \<Longrightarrow> \<forall>(x, y) \<in> set (wall_picks rnd). in_grid x y"
  by (auto simp: valid_rnd_def in_grid_def)

lemma generate_maze_spec:
  assumes "valid_rnd rnd"
  shows "\<exists>m. generate_maze rnd = Some m \<and> wf_maze m \<and>
           (\<forall>x y. in_grid x y \<longrightarrow>
              maze_get m x y = Some (if (x, y) \<in> set (wall_picks rnd) then 1 else 0))"
  using place_walls_spec [OF wf_empty_maze valid_rnd_in_grid [OF assms]]
  by (auto simp: generate_maze_def maze_get_empty_maze)

lemma set_grid_cells: "set grid_cells = {(x, y). in_grid x y}"
  by (auto simp: grid_cells_def in_grid_def)

lemma distinct_row_major:
  "distinct xs \<Longrightarrow> distinct ys \<Longrightarrow> distinct [(x, y). y \<leftarrow> ys, x \<leftarrow> xs]"
  by (induction ys) (auto simp: distinct_map inj_on_def)

lemma distinct_grid_cells: "distinct grid_cells"
  unfolding grid_cells_def py_range_def by (intro distinct_row_major distinct_upto)

lemma set_walls: "set (walls m) = {c. in_grid (fst c) (snd c) \<and> is_wall m c}"
  by (auto simp: walls_def set_grid_cells)

lemma length_walls: "length (walls m) = card (set (walls m))"
  by (metis distinct_card distinct_filter distinct_grid_cells walls_def)

section \<open>Correctness of the maze generator\<close>

text \<open>
  C1. For any values \<open>random.randint\<close> can return, \<open>generate_maze\<close> raises no
  \<open>IndexError\<close> and returns a well-formed \<open>15 \<times> 15\<close> maze of 0s and 1s whose walls are
  exactly the 20 drawn cells; since a cell may be drawn twice there are at most 20 walls.
\<close>

theorem generate_maze_correct:
  assumes "valid_rnd rnd"
  shows "\<exists>m. generate_maze rnd = Some m \<and> wf_maze m \<and>
           set (walls m) = set (wall_picks rnd) \<and> length (walls m) \<le> 20"
proof -
  obtain m where m: "generate_maze rnd = Some m" "wf_maze m"
    and cells: "\<forall>x y. in_grid x y \<longrightarrow>
              maze_get m x y = Some (if (x, y) \<in> set (wall_picks rnd) then 1 else 0)"
    using generate_maze_spec [OF assms] by blast
  have picks: "\<forall>(x, y) \<in> set (wall_picks rnd). in_grid x y"
    by (rule valid_rnd_in_grid [OF assms])
  have w: "set (walls m) = set (wall_picks rnd)"
  proof (rule set_eqI)
    fix c :: cell
    obtain x y where c: "c = (x, y)" by (cases c)
    show "c \<in> set (walls m) \<longleftrightarrow> c \<in> set (wall_picks rnd)"
    proof (cases "in_grid x y")
      case True
      then show ?thesis using cells c by (simp add: set_walls is_wall_def)
    next
      case False
      then show ?thesis using picks c by (auto simp: set_walls)
    qed
  qed
  have "length (walls m) \<le> length (wall_picks rnd)"
    unfolding length_walls w by (rule card_length)
  then show ?thesis using m w by (simp add: wall_picks_def)
qed

theorem generate_maze_correct_witness:
  "valid_rnd (\<lambda>i. (int i mod 15, int (7 * i) mod 15)) \<and>
   (\<exists>m. generate_maze (\<lambda>i. (int i mod 15, int (7 * i) mod 15)) = Some m \<and> wf_maze m \<and>
      set (walls m) = set (wall_picks (\<lambda>i. (int i mod 15, int (7 * i) mod 15))) \<and>
      length (walls m) \<le> 20)"
proof -
  have v: "valid_rnd (\<lambda>i. (int i mod 15, int (7 * i) mod 15))"
    by (simp add: valid_rnd_def wall_picks_def upt_rec)
  show ?thesis using v generate_maze_correct [OF v] by blast
qed

end
