(* ===== verification/Tank.thy ===== *)
theory Tank
  imports Maze
begin

text \<open>
  The \<^verbatim>\<open>Tank\<close> class (\<^verbatim>\<open>src/TankGame.py\<close>, lines 31--59): a position, the
  \<open>is_player\<close> role tag and a facing direction. The sprite is presentation and is
  left out. The direction strings \<open>'UP'\<close>, \<open>'DOWN'\<close>, \<open>'LEFT'\<close>, \<open>'RIGHT'\<close> are
  the constructors of \<open>direction\<close>. \<open>Tank.move\<close> is \<open>tank_move\<close>; it reads the
  maze, so it returns \<open>None\<close> where \<open>maze[new_y][new_x]\<close> would raise.
\<close>

section \<open>Definitions\<close>

datatype direction = UP | DOWN | LEFT | RIGHT

record tank =
  tank_x :: int
  tank_y :: int
  is_player :: bool
  tank_dir :: direction

definition new_tank :: "int \<Rightarrow> int \<Rightarrow> bool \<Rightarrow> tank" where
  "new_tank x y player = \<lparr>tank_x = x, tank_y = y, is_player = player, tank_dir = UP\<rparr>"

text \<open>The \<open>if/elif\<close> chain that turns the tank after the attempted step.\<close>

definition move_dir :: "int \<Rightarrow> int \<Rightarrow> direction \<Rightarrow> direction" where
  "move_dir dx dy d =
     (if dx = -1 then LEFT else if dx = 1 then RIGHT
      else if dy = -1 then UP else if dy = 1 then DOWN else d)"

definition tank_move :: "maze \<Rightarrow> tank \<Rightarrow> int \<Rightarrow> int \<Rightarrow> tank option" where
  "tank_move m t dx dy =
     (let new_x = tank_x t + dx; new_y = tank_y t + dy in
      do {
        t' \<leftarrow> (if 0 \<le> new_x \<and> new_x < COLS \<and> 0 \<le> new_y \<and> new_y < ROWS
              then do {
                c \<leftarrow> maze_get m new_x new_y;
                Some (if c = 0 then t\<lparr>tank_x := new_x, tank_y := new_y\<rparr> else t)
              }
              else Some t);
        Some (t'\<lparr>tank_dir := move_dir dx dy (tank_dir t')\<rparr>)
      })"

text \<open>The rotation table of \<open>Tank.draw\<close>: the sprite angle for each facing.\<close>

primrec direction_angle :: "direction \<Rightarrow> int" where
  "direction_angle UP = 0"
| "direction_angle RIGHT = 270"
| "direction_angle DOWN = 180"
| "direction_angle LEFT = 90"

text \<open>
  The unit step of a direction, as \<open>Bullet.move\<close> takes it and as every call of
  \<open>Tank.move\<close> passes it (\<open>(-1, 0)\<close> for \<open>LEFT\<close>, \<open>(0, -1)\<close> for \<open>UP\<close>, \dots).
\<close>

primrec delta :: "direction \<Rightarrow> int \<times> int" where
  "delta UP = (0, -1)"
| "delta DOWN = (0, 1)"
| "delta LEFT = (-1, 0)"
| "delta RIGHT = (1, 0)"

definition tank_pos :: "tank \<Rightarrow> cell" where
  "tank_pos t = (tank_x t, tank_y t)"

definition target :: "tank \<Rightarrow> direction \<Rightarrow> cell" where
  "target t d = (tank_x t + fst (delta d), tank_y t + snd (delta d))"

text \<open>A tank stands on the board; it may stand on a wall only where it was placed.\<close>

definition on_board :: "tank \<Rightarrow> bool" where
  "on_board t \<longleftrightarrow> in_grid (tank_x t) (tank_y t)"

section \<open>Behaviour of Tank.move\<close>

lemma move_dir_delta [simp]: "move_dir (fst (delta d)) (snd (delta d)) d' = d"
  by (cases d) (simp_all add: move_dir_def)

text \<open>The whole of \<open>Tank.move\<close> on a well-formed maze, both branches at once.\<close>

lemma tank_move_eq:
  assumes "wf_maze m"
  shows "tank_move m t dx dy =
     Some ((if in_grid (tank_x t + dx) (tank_y t + dy) \<and> \<not> is_wall m (tank_x t + dx, tank_y t + dy)
            then t\<lparr>tank_x := tank_x t + dx, tank_y := tank_y t + dy\<rparr> else t)
           \<lparr>tank_dir := move_dir dx dy (tank_dir t)\<rparr>)"
proof (cases "in_grid (tank_x t + dx) (tank_y t + dy)")
  case True
  with maze_get_cell_cases [OF assms True] show ?thesis
    by (auto simp: tank_move_def is_wall_def in_grid_def)
next
  case False
  then show ?thesis by (auto simp: tank_move_def in_grid_def)
qed

lemma tank_move_delta:
  assumes "wf_maze m"
  shows "tank_move m t (fst (delta d)) (snd (delta d)) =
     Some ((if in_grid (fst (target t d)) (snd (target t d)) \<and> \<not> is_wall m (target t d)
            then t\<lparr>tank_x := fst (target t d), tank_y := snd (target t d)\<rparr> else t)
           \<lparr>tank_dir := d\<rparr>)"
  using tank_move_eq [OF assms, of t "fst (delta d)" "snd (delta d)"]
  by (simp add: target_def)

lemma tank_move_is_player:
  "wf_maze m \<Longrightarrow> tank_move m t dx dy = Some t' \<Longrightarrow> is_player t' = is_player t"
  by (auto simp: tank_move_eq split: if_splits)

lemma tank_move_placed:
  assumes "wf_maze m" and "tank_move m t dx dy = Some t'"
  shows "tank_pos t' = tank_pos t \<or>
         (in_grid (tank_x t') (tank_y t') \<and> \<not> is_wall m (tank_pos t'))"
  using assms by (auto simp: tank_move_eq tank_pos_def split: if_splits)

section \<open>Claims on Tank.move\<close>

text \<open>
  C2. A move towards a cell outside the grid or onto a wall leaves the tank where it is
  but still turns it to face the attempted direction (spec section 4.2).
\<close>

theorem tank_move_blocked_turns:
  assumes "wf_maze m"
    and "\<not> in_grid (fst (target t d)) (snd (target t d)) \<or> is_wall m (target t d)"
  shows "tank_move m t (fst (delta d)) (snd (delta d)) = Some (t\<lparr>tank_dir := d\<rparr>)"
  using tank_move_delta [OF assms(1), of t d] assms(2) by auto

theorem tank_move_blocked_turns_witness:
  "tank_move empty_maze (new_tank 0 0 True) (fst (delta UP)) (snd (delta UP)) =
     Some ((new_tank 0 0 True)\<lparr>tank_dir := UP\<rparr>)"
  by (rule tank_move_blocked_turns [OF wf_empty_maze])
     (simp add: target_def new_tank_def in_grid_def)

text \<open>
  C3. A move onto an open cell inside the grid shifts the tank one cell in the attempted
  direction and turns it to face that direction.
\<close>

theorem tank_move_open_steps:
  assumes "wf_maze m"
    and "in_grid (fst (target t d)) (snd (target t d))" and "\<not> is_wall m (target t d)"
  shows "tank_move m t (fst (delta d)) (snd (delta d)) =
           Some (t\<lparr>tank_x := fst (target t d), tank_y := snd (target t d), tank_dir := d\<rparr>)"
  using tank_move_delta [OF assms(1), of t d] assms(2,3) by simp

theorem tank_move_open_steps_witness:
  "tank_move empty_maze (new_tank 1 1 True) (fst (delta RIGHT)) (snd (delta RIGHT)) =
     Some ((new_tank 1 1 True)\<lparr>tank_x := 2, tank_y := 1, tank_dir := RIGHT\<rparr>)"
proof -
  have g: "in_grid (fst (target (new_tank 1 1 True) RIGHT)) (snd (target (new_tank 1 1 True) RIGHT))"
    by (simp add: target_def new_tank_def in_grid_def)
  have o: "\<not> is_wall empty_maze (target (new_tank 1 1 True) RIGHT)"
    using maze_get_empty_maze g by (simp add: is_wall_def)
  show ?thesis
    using tank_move_open_steps [OF wf_empty_maze g o] by (simp add: target_def new_tank_def)
qed

text \<open>
  C4. On a well-formed maze \<open>Tank.move\<close> never raises, keeps a tank that is on the board
  on the board, keeps its role, and either leaves it in place or puts it on an open cell:
  a tank never walks onto a wall.
\<close>

theorem tank_move_stays_on_board:
  assumes "wf_maze m" and "on_board t"
  shows "\<exists>t'. tank_move m t dx dy = Some t' \<and> on_board t' \<and> is_player t' = is_player t \<and>
           (tank_pos t' = tank_pos t \<or> \<not> is_wall m (tank_pos t'))"
  using assms by (auto simp: tank_move_eq on_board_def tank_pos_def)

theorem tank_move_stays_on_board_witness:
  "\<exists>t'. tank_move empty_maze (new_tank 0 0 True) (-1) 0 = Some t' \<and> on_board t' \<and>
     is_player t' = is_player (new_tank 0 0 True) \<and>
     (tank_pos t' = tank_pos (new_tank 0 0 True) \<or> \<not> is_wall empty_maze (tank_pos t'))"
  by (rule tank_move_stays_on_board [OF wf_empty_maze])
     (simp add: on_board_def new_tank_def in_grid_def)

end
