(* ===== verification/Bullet.thy ===== *)
theory Bullet
  imports Tank
begin

text \<open>
  The \<^verbatim>\<open>Bullet\<close> class (\<^verbatim>\<open>src/TankGame.py\<close>, lines 61--81) and the projectile
  resolver of the game loop (lines 215--229). A bullet records its cell, its direction and
  the tank that fired it; the resolver only reads that tank's \<open>is_player\<close>, so the
  owner is kept as the tank value at the moment of firing. The loop
  \<open>for bullet in bullets[:]\<close> walks a copy of the list and removes bullets from the
  original; since every bullet is visited once, in creation order, this is
  \<open>move_bullets\<close>: one pass that keeps the moved survivors in order and threads the
  pair \<open>(game_over, result_text)\<close> through the hit checks.
\<close>

section \<open>Definitions\<close>

record bullet =
  bullet_x :: int
  bullet_y :: int
  bullet_dir :: direction
  owner :: tank

definition new_bullet :: "int \<Rightarrow> int \<Rightarrow> direction \<Rightarrow> tank \<Rightarrow> bullet" where
  "new_bullet x y d t = \<lparr>bullet_x = x, bullet_y = y, bullet_dir = d, owner = t\<rparr>"

definition bullet_move :: "bullet \<Rightarrow> bullet" where
  "bullet_move b =
     (case bullet_dir b of
        UP \<Rightarrow> b\<lparr>bullet_y := bullet_y b - 1\<rparr>
      | DOWN \<Rightarrow> b\<lparr>bullet_y := bullet_y b + 1\<rparr>
      | LEFT \<Rightarrow> b\<lparr>bullet_x := bullet_x b - 1\<rparr>
      | RIGHT \<Rightarrow> b\<lparr>bullet_x := bullet_x b + 1\<rparr>)"

text \<open>
  The two hit checks of lines 224--229, in the source's order: a player's bullet on the
  opponent's cell records \<open>WIN\<close>, then an opponent's bullet on the player's cell records
  \<open>LOSE\<close>. The state is \<open>(game_over, result_text)\<close>.
\<close>

definition record_hits :: "tank \<Rightarrow> tank \<Rightarrow> bullet \<Rightarrow> bool \<times> string \<Rightarrow> bool \<times> string" where
  "record_hits player ai b st =
     (let st1 = (if is_player (owner b) \<and> bullet_x b = tank_x ai \<and> bullet_y b = tank_y ai
                 then (True, ''WIN'') else st)
      in if \<not> is_player (owner b) \<and> bullet_x b = tank_x player \<and> bullet_y b = tank_y player
         then (True, ''LOSE'') else st1)"

text \<open>One iteration of the loop: \<open>None\<close> in the first component is a removed bullet.\<close>

definition resolve_bullet ::
  "maze \<Rightarrow> tank \<Rightarrow> tank \<Rightarrow> bool \<times> string \<Rightarrow> bullet \<Rightarrow> (bullet option \<times> (bool \<times> string)) option" where
  "resolve_bullet m player ai st b =
     (let b' = bullet_move b in
      if bullet_x b' < 0 \<or> bullet_x b' \<ge> COLS \<or> bullet_y b' < 0 \<or> bullet_y b' \<ge> ROWS
      then Some (None, st)
      else do {
        c \<leftarrow> maze_get m (bullet_x b') (bullet_y b');
        if c = 1 then Some (None, st)
        else Some (Some b', record_hits player ai b' st)
      })"

fun move_bullets ::
  "maze \<Rightarrow> tank \<Rightarrow> tank \<Rightarrow> bool \<times> string \<Rightarrow> bullet list \<Rightarrow> (bullet list \<times> (bool \<times> string)) option" where
  "move_bullets m player ai st [] = Some ([], st)"
| "move_bullets m player ai st (b # bs) = do {
     (ob, st1) \<leftarrow> resolve_bullet m player ai st b;
     (bs', st2) \<leftarrow> move_bullets m player ai st1 bs;
     Some (case ob of None \<Rightarrow> bs' | Some b' \<Rightarrow> b' # bs', st2)
   }"

section \<open>Reference view of the resolver\<close>

definition bullet_pos :: "bullet \<Rightarrow> cell" where
  "bullet_pos b = (bullet_x b, bullet_y b)"

definition survives :: "maze \<Rightarrow> bullet \<Rightarrow> bool" where
  "survives m b \<longleftrightarrow> in_grid (bullet_x b) (bullet_y b) \<and> \<not> is_wall m (bullet_pos b)"

definition is_hit :: "tank \<Rightarrow> tank \<Rightarrow> bullet \<Rightarrow> bool" where
  "is_hit player ai b \<longleftrightarrow>
     (is_player (owner b) \<and> bullet_pos b = tank_pos ai) \<or>
     (\<not> is_player (owner b) \<and> bullet_pos b = tank_pos player)"

definition hit_outcome :: "bullet \<Rightarrow> string" where
  "hit_outcome b = (if is_player (owner b) then ''WIN'' else ''LOSE'')"

section \<open>Lemmas\<close>

lemma bullet_move_delta:
  "bullet_move b = b\<lparr>bullet_x := bullet_x b + fst (delta (bullet_dir b)),
                     bullet_y := bullet_y b + snd (delta (bullet_dir b))\<rparr>"
  by (cases "bullet_dir b") (simp_all add: bullet_move_def)

lemma bullet_move_owner [simp]: "owner (bullet_move b) = owner b"
  by (cases "bullet_dir b") (simp_all add: bullet_move_def)

lemma bullet_move_dir [simp]: "bullet_dir (bullet_move b) = bullet_dir b"
  by (cases "bullet_dir b") (simp_all add: bullet_move_def)

lemma record_hits_eq:
  "record_hits player ai b st = (if is_hit player ai b then (True, hit_outcome b) else st)"
  by (auto simp: record_hits_def is_hit_def hit_outcome_def bullet_pos_def tank_pos_def Let_def)

lemma resolve_bullet_eq:
  assumes "wf_maze m"
  shows "resolve_bullet m player ai st b =
           Some (if survives m (bullet_move b)
                 then (Some (bullet_move b), record_hits player ai (bullet_move b) st)
                 else (None, st))"
proof (cases "in_grid (bullet_x (bullet_move b)) (bullet_y (bullet_move b))")
  case True
  with maze_get_cell_cases [OF assms True] show ?thesis
    by (auto simp: resolve_bullet_def survives_def is_wall_def bullet_pos_def in_grid_def Let_def)
next
  case False
  then show ?thesis
    by (auto simp: resolve_bullet_def survives_def in_grid_def)
qed

text \<open>The loop over the copy is a filter of the moved bullets and a fold of the hit checks.\<close>

lemma move_bullets_eq:
  assumes "wf_maze m"
  shows "move_bullets m player ai st bs =
           Some (filter (survives m) (map bullet_move bs),
                 fold (record_hits player ai) (filter (survives m) (map bullet_move bs)) st)"
  by (induction bs arbitrary: st) (auto simp: resolve_bullet_eq [OF assms])

lemma fold_record_hits:
  "fold (record_hits player ai) bs st =
     (if filter (is_hit player ai) bs = [] then st
      else (True, hit_outcome (last (filter (is_hit player ai) bs))))"
  by (induction bs rule: rev_induct) (auto simp: record_hits_eq)

section \<open>Claims on the projectile resolver\<close>

text \<open>
  C5. On a well-formed maze one pass of the resolver never raises, keeps exactly the moved
  bullets that are still in the grid and not on a wall, in creation order, and leaves the
  outcome of the last hitting bullet (\<open>WIN\<close> for the player's, \<open>LOSE\<close> for the
  opponent's); with no hit the state is unchanged. Simultaneous hits are settled by list
  order (spec section 4.5).
\<close>

theorem move_bullets_reference:
  assumes "wf_maze m"
  shows "move_bullets m player ai st bs =
           Some (filter (survives m) (map bullet_move bs),
                 (let hs = filter (is_hit player ai) (filter (survives m) (map bullet_move bs))
                  in if hs = [] then st else (True, hit_outcome (last hs))))"
  by (simp add: move_bullets_eq [OF assms] fold_record_hits Let_def)

theorem move_bullets_reference_witness:
  "move_bullets empty_maze (new_tank 1 1 True) (new_tank 13 13 False) (False, '''')
     [new_bullet 12 13 RIGHT (new_tank 12 13 True), new_bullet 2 1 LEFT (new_tank 2 1 False)] =
   Some (filter (survives empty_maze) (map bullet_move
     [new_bullet 12 13 RIGHT (new_tank 12 13 True), new_bullet 2 1 LEFT (new_tank 2 1 False)]),
     (let hs = filter (is_hit (new_tank 1 1 True) (new_tank 13 13 False))
                 (filter (survives empty_maze) (map bullet_move
                   [new_bullet 12 13 RIGHT (new_tank 12 13 True), new_bullet 2 1 LEFT (new_tank 2 1 False)]))
      in if hs = [] then (False, '''') else (True, hit_outcome (last hs))))"
  by (rule move_bullets_reference [OF wf_empty_maze])

text \<open>
  C6. After the resolver runs, no bullet is outside the grid or on a wall cell (spec
  section 8, first property, for projectiles).
\<close>

theorem move_bullets_survivors_open:
  assumes "wf_maze m" and "move_bullets m player ai st bs = Some (bs', st')" and "b \<in> set bs'"
  shows "in_grid (bullet_x b) (bullet_y b) \<and> \<not> is_wall m (bullet_pos b)"
  using assms by (auto simp: move_bullets_eq survives_def)

theorem move_bullets_survivors_open_witness:
  "in_grid (bullet_x (new_bullet 5 4 UP (new_tank 5 5 True))) (bullet_y (new_bullet 5 4 UP (new_tank 5 5 True))) \<and>
   \<not> is_wall empty_maze (bullet_pos (new_bullet 5 4 UP (new_tank 5 5 True)))"
proof -
  have o: "\<not> is_wall empty_maze (5, 4)"
    using maze_get_empty_maze [of 5 4] by (simp add: in_grid_def is_wall_def)
  have run: "move_bullets empty_maze (new_tank 1 1 True) (new_tank 13 13 False) (False, '''')
          [new_bullet 5 5 UP (new_tank 5 5 True)] =
        Some ([new_bullet 5 4 UP (new_tank 5 5 True)],
              fold (record_hits (new_tank 1 1 True) (new_tank 13 13 False))
                [new_bullet 5 4 UP (new_tank 5 5 True)] (False, ''''))"
    using o by (simp add: move_bullets_eq [OF wf_empty_maze] survives_def new_bullet_def bullet_move_def
                          in_grid_def bullet_pos_def del: move_bullets.simps)
  show ?thesis
    by (rule move_bullets_survivors_open [OF wf_empty_maze run]) simp
qed

text \<open>
  C7. A bullet created at \<open>(x, y)\<close> moving \<open>UP\<close> is at \<open>(x, y - 1)\<close> after one
  resolution tick when that cell is open, and is discarded once \<open>y - 1 < 0\<close> (spec
  section 8).
\<close>

theorem bullet_up_one_tick:
  assumes "wf_maze m"
  shows "(in_grid x (y - 1) \<and> \<not> is_wall m (x, y - 1) \<longrightarrow>
            move_bullets m player ai st [new_bullet x y UP t] =
              Some ([new_bullet x (y - 1) UP t], record_hits player ai (new_bullet x (y - 1) UP t) st)) \<and>
         (y - 1 < 0 \<longrightarrow> move_bullets m player ai st [new_bullet x y UP t] = Some ([], st))"
  by (auto simp: move_bullets_eq [OF assms] survives_def bullet_move_def new_bullet_def
                 bullet_pos_def in_grid_def simp del: move_bullets.simps)

theorem bullet_up_one_tick_witness:
  "move_bullets empty_maze (new_tank 1 1 True) (new_tank 13 13 False) (False, '''')
      [new_bullet 5 5 UP (new_tank 5 5 True)] =
     Some ([new_bullet 5 4 UP (new_tank 5 5 True)],
           record_hits (new_tank 1 1 True) (new_tank 13 13 False) (new_bullet 5 4 UP (new_tank 5 5 True)) (False, ''''))
   \<and> move_bullets empty_maze (new_tank 1 1 True) (new_tank 13 13 False) (False, '''')
      [new_bullet 5 0 UP (new_tank 5 0 True)] = Some ([], (False, ''''))"
proof -
  have g: "in_grid 5 (5 - 1) \<and> \<not> is_wall empty_maze (5, 5 - 1)"
    using maze_get_empty_maze [of 5 4] by (simp add: in_grid_def is_wall_def)
  show ?thesis
    using bullet_up_one_tick [OF wf_empty_maze, of 5 5 "new_tank 1 1 True" "new_tank 13 13 False" "(False, '''')" "new_tank 5 5 True"]
      bullet_up_one_tick [OF wf_empty_maze, of 5 0 "new_tank 1 1 True" "new_tank 13 13 False" "(False, '''')" "new_tank 5 0 True"]
      g by simp
qed

text \<open>
  C8. A player's bullet that reaches the opponent's cell records \<open>WIN\<close> and ends the
  game, but it is not removed from the bullet list: the loop removes a bullet only when it
  leaves the grid or enters a wall.
\<close>

theorem hit_bullet_stays:
  assumes "wf_maze m" and "is_player (owner b)"
    and "survives m (bullet_move b)" and "bullet_pos (bullet_move b) = tank_pos ai"
  shows "move_bullets m player ai st [b] = Some ([bullet_move b], (True, ''WIN''))"
  using assms(2-4)
  by (simp add: move_bullets_eq [OF assms(1)] record_hits_eq is_hit_def hit_outcome_def
           del: move_bullets.simps)

theorem hit_bullet_stays_witness:
  "move_bullets empty_maze (new_tank 1 1 True) (new_tank 13 13 False) (False, '''')
      [new_bullet 12 13 RIGHT (new_tank 12 13 True)] =
     Some ([bullet_move (new_bullet 12 13 RIGHT (new_tank 12 13 True))], (True, ''WIN''))"
proof -
  have s: "survives empty_maze (bullet_move (new_bullet 12 13 RIGHT (new_tank 12 13 True)))"
    using maze_get_empty_maze [of 13 13]
    by (simp add: survives_def bullet_move_def new_bullet_def in_grid_def is_wall_def bullet_pos_def)
  show ?thesis
    by (rule hit_bullet_stays [OF wf_empty_maze _ s])
       (simp_all add: new_bullet_def new_tank_def bullet_move_def bullet_pos_def tank_pos_def)
qed

end
