(* ===== verification/Opponent.thy ===== *)
theory Opponent
  imports Bullet
begin

text \<open>
  The opponent's turn (\<^verbatim>\<open>src/TankGame.py\<close>, lines 93--123):
  \<^verbatim>\<open>ai_can_see_player\<close> scans the cells strictly between the two tanks in a shared
  row or column and, when none is a wall, turns the opponent towards the player;
  \<^verbatim>\<open>ai_move\<close> then fires, or tries the four unit steps in the order
  \<open>random.shuffle\<close> produced and takes the first open one. The shuffled list is an
  input of the model. Globals \<open>maze\<close>, \<open>player_tank\<close>, \<open>ai_tank\<close> and
  \<open>bullets\<close> are passed in and the changed ones returned.
\<close>

section \<open>Definitions\<close>

text \<open>
  The body of the two \<open>for\<close> loops of \<^verbatim>\<open>ai_can_see_player\<close>: \<open>Some True\<close> as soon
  as a scanned cell holds \<open>1\<close> (the early \<open>return False\<close>), \<open>Some False\<close> when the
  loop runs out.
\<close>

fun scan_cells :: "maze \<Rightarrow> cell list \<Rightarrow> bool option" where
  "scan_cells m [] = Some False"
| "scan_cells m ((x, y) # cs) = do { c \<leftarrow> maze_get m x y; if c = 1 then Some True else scan_cells m cs }"

definition ai_can_see_player :: "maze \<Rightarrow> tank \<Rightarrow> tank \<Rightarrow> (bool \<times> tank) option" where
  "ai_can_see_player m player ai =
     (if tank_y ai = tank_y player then do {
        blocked \<leftarrow> scan_cells m (map (\<lambda>x. (x, tank_y ai))
                     (py_range (min (tank_x ai) (tank_x player) + 1) (max (tank_x ai) (tank_x player))));
        if blocked then Some (False, ai)
        else Some (True, ai\<lparr>tank_dir := (if tank_x ai > tank_x player then LEFT else RIGHT)\<rparr>)
      }
      else if tank_x ai = tank_x player then do {
        blocked \<leftarrow> scan_cells m (map (\<lambda>y. (tank_x ai, y))
                     (py_range (min (tank_y ai) (tank_y player) + 1) (max (tank_y ai) (tank_y player))));
        if blocked then Some (False, ai)
        else Some (True, ai\<lparr>tank_dir := (if tank_y ai > tank_y player then UP else DOWN)\<rparr>)
      }
      else Some (False, ai))"

definition ai_moves :: "(int \<times> int) list" where
  "ai_moves = [(-1, 0), (1, 0), (0, -1), (0, 1)]"

text \<open>The \<open>for dx, dy in moves\<close> loop with its \<open>break\<close>.\<close>

fun try_moves :: "maze \<Rightarrow> tank \<Rightarrow> (int \<times> int) list \<Rightarrow> tank option" where
  "try_moves m ai [] = Some ai"
| "try_moves m ai ((dx, dy) # ms) =
     (let new_x = tank_x ai + dx; new_y = tank_y ai + dy in
      if 0 \<le> new_x \<and> new_x < COLS \<and> 0 \<le> new_y \<and> new_y < ROWS
      then do { c \<leftarrow> maze_get m new_x new_y; if c = 0 then tank_move m ai dx dy else try_moves m ai ms }
      else try_moves m ai ms)"

definition ai_move ::
  "maze \<Rightarrow> tank \<Rightarrow> tank \<Rightarrow> bullet list \<Rightarrow> (int \<times> int) list \<Rightarrow> (tank \<times> bullet list) option" where
  "ai_move m player ai bullets shuffled = do {
     (seen, ai1) \<leftarrow> ai_can_see_player m player ai;
     if seen then Some (ai1, bullets @ [new_bullet (tank_x ai1) (tank_y ai1) (tank_dir ai1) ai1])
     else do { ai2 \<leftarrow> try_moves m ai1 shuffled; Some (ai2, bullets) }
   }"

section \<open>Specification of the opponent\<close>

text \<open>Cell \<open>c\<close> lies strictly between \<open>a\<close> and \<open>p\<close> on their shared row or column.\<close>

definition strictly_between :: "cell \<Rightarrow> cell \<Rightarrow> cell \<Rightarrow> bool" where
  "strictly_between a p c \<longleftrightarrow>
     (snd a = snd p \<and> snd c = snd a \<and> min (fst a) (fst p) < fst c \<and> fst c < max (fst a) (fst p)) \<or>
     (fst a = fst p \<and> fst c = fst a \<and> min (snd a) (snd p) < snd c \<and> snd c < max (snd a) (snd p))"

definition line_of_sight :: "maze \<Rightarrow> cell \<Rightarrow> cell \<Rightarrow> bool" where
  "line_of_sight m a p \<longleftrightarrow>
     (fst a = fst p \<or> snd a = snd p) \<and>
     \<not> list_ex (\<lambda>c. strictly_between a p c \<and> is_wall m c) grid_cells"

text \<open>Direction \<open>d\<close> points from \<open>a\<close> to \<open>p\<close>: \<open>p - a\<close> is a positive multiple of \<open>delta d\<close>.\<close>

definition towards :: "cell \<Rightarrow> cell \<Rightarrow> direction \<Rightarrow> bool" where
  "towards a p d \<longleftrightarrow>
     (fst p - fst a) * snd (delta d) = (snd p - snd a) * fst (delta d) \<and>
     0 < (fst p - fst a) * fst (delta d) + (snd p - snd a) * snd (delta d)"

definition open_step :: "maze \<Rightarrow> tank \<Rightarrow> int \<times> int \<Rightarrow> bool" where
  "open_step m t s \<longleftrightarrow>
     in_grid (tank_x t + fst s) (tank_y t + snd s) \<and> \<not> is_wall m (tank_x t + fst s, tank_y t + snd s)"

section \<open>Lemmas\<close>

lemma scan_cells_eq:
  "wf_maze m \<Longrightarrow> \<forall>(x, y) \<in> set cs. in_grid x y \<Longrightarrow> scan_cells m cs = Some (list_ex (is_wall m) cs)"
proof (induction cs)
  case Nil
  then show ?case by simp
next
  case (Cons c cs)
  obtain x y where c: "c = (x, y)" by (cases c)
  with Cons.prems have "in_grid x y" by simp
  with maze_get_cell_cases [OF Cons.prems(1) this] Cons c show ?case
    by (auto simp: is_wall_def)
qed

lemma strictly_between_in_grid:
  "on_board a \<Longrightarrow> on_board p \<Longrightarrow> strictly_between (tank_pos a) (tank_pos p) c \<Longrightarrow> in_grid (fst c) (snd c)"
  by (auto simp: strictly_between_def on_board_def tank_pos_def in_grid_def)

lemma walls_between_row:
  assumes "tank_y ai = tank_y player"
  shows "set (map (\<lambda>x. (x, tank_y ai))
           (py_range (min (tank_x ai) (tank_x player) + 1) (max (tank_x ai) (tank_x player)))) =
         {c. strictly_between (tank_pos ai) (tank_pos player) c}"
  using assms by (auto simp: strictly_between_def tank_pos_def)

lemma walls_between_column:
  assumes "tank_x ai = tank_x player" and "tank_y ai \<noteq> tank_y player"
  shows "set (map (\<lambda>y. (tank_x ai, y))
           (py_range (min (tank_y ai) (tank_y player) + 1) (max (tank_y ai) (tank_y player)))) =
         {c. strictly_between (tank_pos ai) (tank_pos player) c}"
  using assms by (auto simp: strictly_between_def tank_pos_def)

lemma list_ex_between:
  assumes "on_board ai" and "on_board player"
    and "set cs = {c. strictly_between (tank_pos ai) (tank_pos player) c}"
  shows "list_ex (is_wall m) cs =
         list_ex (\<lambda>c. strictly_between (tank_pos ai) (tank_pos player) c \<and> is_wall m c) grid_cells"
  using assms strictly_between_in_grid [OF assms(1,2)]
  by (fastforce simp: list_ex_iff set_grid_cells)

text \<open>\<^verbatim>\<open>ai_can_see_player\<close> on the board: the answer is \<open>line_of_sight\<close>.\<close>

lemma ai_can_see_player_eq:
  assumes "wf_maze m" and "on_board ai" and "on_board player"
  shows "ai_can_see_player m player ai =
    Some (line_of_sight m (tank_pos ai) (tank_pos player),
          if line_of_sight m (tank_pos ai) (tank_pos player)
          then ai\<lparr>tank_dir := (if tank_y ai = tank_y player
                               then (if tank_x ai > tank_x player then LEFT else RIGHT)
                               else (if tank_y ai > tank_y player then UP else DOWN))\<rparr>
          else ai)"
proof -
  let ?a = "tank_pos ai" and ?p = "tank_pos player"
  let ?W = "list_ex (\<lambda>c. strictly_between ?a ?p c \<and> is_wall m c) grid_cells"
  have scan: "scan_cells m cs = Some ?W" if cs: "set cs = {c. strictly_between ?a ?p c}" for cs
  proof -
    have "\<forall>(x, y) \<in> set cs. in_grid x y"
      using cs strictly_between_in_grid [OF assms(2,3)] by auto
    then show ?thesis
      using scan_cells_eq [OF assms(1)] list_ex_between [OF assms(2,3) cs] by simp
  qed
  consider (row) "tank_y ai = tank_y player"
    | (col) "tank_y ai \<noteq> tank_y player" "tank_x ai = tank_x player"
    | (none) "tank_y ai \<noteq> tank_y player" "tank_x ai \<noteq> tank_x player"
    by blast
  then show ?thesis
  proof cases
    case row
    then show ?thesis
      using scan [OF walls_between_row [OF row]]
      by (simp add: ai_can_see_player_def line_of_sight_def tank_pos_def)
  next
    case col
    then show ?thesis
      using scan [OF walls_between_column [OF col(2,1)]]
      by (simp add: ai_can_see_player_def line_of_sight_def tank_pos_def)
  next
    case none
    then show ?thesis
      by (simp add: ai_can_see_player_def line_of_sight_def tank_pos_def)
  qed
qed

lemma towards_facing:
  assumes "tank_x ai = tank_x player \<or> tank_y ai = tank_y player" and "tank_pos ai \<noteq> tank_pos player"
  shows "towards (tank_pos ai) (tank_pos player)
           (if tank_y ai = tank_y player
            then (if tank_x ai > tank_x player then LEFT else RIGHT)
            else (if tank_y ai > tank_y player then UP else DOWN))"
  using assms by (auto simp: towards_def tank_pos_def)

lemma ai_can_see_player_visible:
  assumes "wf_maze m" and "on_board ai" and "on_board player"
    and "line_of_sight m (tank_pos ai) (tank_pos player)"
  shows "\<exists>d. ai_can_see_player m player ai = Some (True, ai\<lparr>tank_dir := d\<rparr>) \<and>
            (tank_pos ai \<noteq> tank_pos player \<longrightarrow> towards (tank_pos ai) (tank_pos player) d)"
proof -
  let ?d = "if tank_y ai = tank_y player
            then (if tank_x ai > tank_x player then LEFT else RIGHT)
            else (if tank_y ai > tank_y player then UP else DOWN)"
  have "ai_can_see_player m player ai = Some (True, ai\<lparr>tank_dir := ?d\<rparr>)"
    using ai_can_see_player_eq [OF assms(1-3)] assms(4) by simp
  moreover have "tank_pos ai \<noteq> tank_pos player \<longrightarrow> towards (tank_pos ai) (tank_pos player) ?d"
    using towards_facing [of ai player] assms(4) by (auto simp: line_of_sight_def tank_pos_def)
  ultimately show ?thesis by blast
qed

lemma ai_can_see_player_hidden:
  assumes "wf_maze m" and "on_board ai" and "on_board player"
    and "\<not> line_of_sight m (tank_pos ai) (tank_pos player)"
  shows "ai_can_see_player m player ai = Some (False, ai)"
  using ai_can_see_player_eq [OF assms(1-3)] assms(4) by simp

lemma try_moves_eq:
  assumes "wf_maze m"
  shows "try_moves m ai ms =
    Some (case find (open_step m ai) ms of
            None \<Rightarrow> ai
          | Some s \<Rightarrow> ai\<lparr>tank_x := tank_x ai + fst s, tank_y := tank_y ai + snd s,
                        tank_dir := move_dir (fst s) (snd s) (tank_dir ai)\<rparr>)"
proof (induction ms)
  case Nil
  then show ?case by simp
next
  case (Cons s ms)
  obtain dx dy where s: "s = (dx, dy)" by (cases s)
  show ?case
  proof (cases "in_grid (tank_x ai + dx) (tank_y ai + dy)")
    case True
    with maze_get_cell_cases [OF assms True] Cons s show ?thesis
      by (auto simp: open_step_def is_wall_def in_grid_def tank_move_eq [OF assms])
  next
    case False
    with Cons s show ?thesis
      by (auto simp: open_step_def in_grid_def)
  qed
qed

lemma find_open_step:
  "find (open_step m ai) ms = Some s \<Longrightarrow>
     in_grid (tank_x ai + fst s) (tank_y ai + snd s) \<and> \<not> is_wall m (tank_x ai + fst s, tank_y ai + snd s)"
  by (auto simp: find_Some_iff open_step_def)

lemma no_wall_empty_maze: "\<not> list_ex (\<lambda>c. strictly_between a p c \<and> is_wall empty_maze c \<and> in_grid (fst c) (snd c)) cs"
  by (auto simp: list_ex_iff is_wall_def maze_get_empty_maze)

lemma ai_move_ok:
  assumes "wf_maze m" and "on_board ai" and "on_board player"
  shows "\<exists>ai' bs'. ai_move m player ai bs shuffled = Some (ai', bs') \<and> on_board ai' \<and>
            is_player ai' = is_player ai \<and> (is_wall m (tank_pos ai') \<longrightarrow> tank_pos ai' = tank_pos ai) \<and>
            (bs' = bs \<or> (\<exists>d. bs' = bs @ [new_bullet (tank_x ai) (tank_y ai) d (ai\<lparr>tank_dir := d\<rparr>)]))"
  using assms find_open_step [of m ai shuffled]
  by (auto simp: ai_move_def ai_can_see_player_eq [OF assms] try_moves_eq [OF assms(1)]
                 on_board_def tank_pos_def split: option.split)

section \<open>Claims on the opponent\<close>

text \<open>
  C9. Refinement of the line-of-sight check: with both tanks on the board,
  \<^verbatim>\<open>ai_can_see_player\<close> never raises, answers exactly \<open>line_of_sight\<close> (a shared row
  or column with no wall strictly between), changes nothing but the opponent's facing,
  changes that only when it sees the player, and then faces the player whenever the two
  tanks are on different cells.
\<close>

theorem ai_can_see_player_refines:
  assumes "wf_maze m" and "on_board ai" and "on_board player"
  shows "\<exists>d. ai_can_see_player m player ai =
              Some (line_of_sight m (tank_pos ai) (tank_pos player),
                    if line_of_sight m (tank_pos ai) (tank_pos player) then ai\<lparr>tank_dir := d\<rparr> else ai) \<and>
            (line_of_sight m (tank_pos ai) (tank_pos player) \<and> tank_pos ai \<noteq> tank_pos player \<longrightarrow>
               towards (tank_pos ai) (tank_pos player) d)"
proof (cases "line_of_sight m (tank_pos ai) (tank_pos player)")
  case True
  then show ?thesis using ai_can_see_player_visible [OF assms True] by auto
next
  case False
  then show ?thesis using ai_can_see_player_hidden [OF assms False] by auto
qed

theorem ai_can_see_player_refines_witness:
  "ai_can_see_player empty_maze (new_tank 1 13 True) (new_tank 13 13 False) =
     Some (True, (new_tank 13 13 False)\<lparr>tank_dir := LEFT\<rparr>)"
proof -
  have b: "on_board (new_tank 13 13 False)" "on_board (new_tank 1 13 True)"
    by (simp_all add: on_board_def new_tank_def in_grid_def)
  have los: "line_of_sight empty_maze (tank_pos (new_tank 13 13 False)) (tank_pos (new_tank 1 13 True))"
    using no_wall_empty_maze [of "tank_pos (new_tank 13 13 False)" "tank_pos (new_tank 1 13 True)" grid_cells]
    by (auto simp: line_of_sight_def tank_pos_def new_tank_def list_ex_iff set_grid_cells)
  obtain d where d: "ai_can_see_player empty_maze (new_tank 1 13 True) (new_tank 13 13 False) =
      Some (True, (new_tank 13 13 False)\<lparr>tank_dir := d\<rparr>)"
    and t: "towards (13, 13) (1, 13) d"
    using ai_can_see_player_refines [OF wf_empty_maze b] los
    by (auto simp: tank_pos_def new_tank_def)
  from t have "d = LEFT" by (cases d) (simp_all add: towards_def)
  with d show ?thesis by simp
qed

text \<open>
  C10. When the opponent sees the player it does not move, turns to face the player (when
  the tanks are on different cells) and appends exactly one bullet, fired from its own
  cell in its new direction (spec section 4.3, step 2).
\<close>

theorem ai_move_fires_when_visible:
  assumes "wf_maze m" and "on_board ai" and "on_board player"
    and "line_of_sight m (tank_pos ai) (tank_pos player)"
  shows "\<exists>d. ai_move m player ai bs shuffled =
              Some (ai\<lparr>tank_dir := d\<rparr>, bs @ [new_bullet (tank_x ai) (tank_y ai) d (ai\<lparr>tank_dir := d\<rparr>)]) \<and>
            (tank_pos ai \<noteq> tank_pos player \<longrightarrow> towards (tank_pos ai) (tank_pos player) d)"
proof -
  obtain d where d: "ai_can_see_player m player ai = Some (True, ai\<lparr>tank_dir := d\<rparr>)"
    and t: "tank_pos ai \<noteq> tank_pos player \<longrightarrow> towards (tank_pos ai) (tank_pos player) d"
    using ai_can_see_player_visible [OF assms] by blast
  have "ai_move m player ai bs shuffled =
          Some (ai\<lparr>tank_dir := d\<rparr>, bs @ [new_bullet (tank_x ai) (tank_y ai) d (ai\<lparr>tank_dir := d\<rparr>)])"
    by (simp add: ai_move_def d)
  with t show ?thesis by blast
qed

theorem ai_move_fires_when_visible_witness:
  "\<exists>d. ai_move empty_maze (new_tank 13 1 True) (new_tank 13 13 False) [] ai_moves =
         Some ((new_tank 13 13 False)\<lparr>tank_dir := d\<rparr>,
               [new_bullet 13 13 d ((new_tank 13 13 False)\<lparr>tank_dir := d\<rparr>)]) \<and> d = UP"
proof -
  have b: "on_board (new_tank 13 13 False)" "on_board (new_tank 13 1 True)"
    by (simp_all add: on_board_def new_tank_def in_grid_def)
  have los: "line_of_sight empty_maze (tank_pos (new_tank 13 13 False)) (tank_pos (new_tank 13 1 True))"
    using no_wall_empty_maze [of "tank_pos (new_tank 13 13 False)" "tank_pos (new_tank 13 1 True)" grid_cells]
    by (auto simp: line_of_sight_def tank_pos_def new_tank_def list_ex_iff set_grid_cells)
  obtain d where d: "ai_move empty_maze (new_tank 13 1 True) (new_tank 13 13 False) [] ai_moves =
         Some ((new_tank 13 13 False)\<lparr>tank_dir := d\<rparr>,
               [new_bullet 13 13 d ((new_tank 13 13 False)\<lparr>tank_dir := d\<rparr>)])"
    and t: "towards (13, 13) (13, 1) d"
    using ai_move_fires_when_visible [OF wf_empty_maze b los, of "[]" ai_moves]
    by (auto simp: tank_pos_def new_tank_def)
  from t have "d = UP" by (cases d) (simp_all add: towards_def)
  with d show ?thesis by blast
qed

text \<open>
  C11. When the opponent cannot see the player it fires nothing and takes the first step
  of the shuffled order that lands on an open cell inside the grid, turning to that step's
  direction; if no step is open it does nothing (spec section 4.3, step 3).
\<close>

theorem ai_move_steps_first_open:
  assumes "wf_maze m" and "on_board ai" and "on_board player"
    and "\<not> line_of_sight m (tank_pos ai) (tank_pos player)"
  shows "ai_move m player ai bs shuffled =
           Some (case find (open_step m ai) shuffled of
                   None \<Rightarrow> ai
                 | Some (dx, dy) \<Rightarrow> ai\<lparr>tank_x := tank_x ai + dx, tank_y := tank_y ai + dy,
                                      tank_dir := move_dir dx dy (tank_dir ai)\<rparr>,
                 bs)"
  using ai_can_see_player_eq [OF assms(1-3)] assms(4)
  by (simp add: ai_move_def try_moves_eq [OF assms(1)] split: option.split)

theorem ai_move_steps_first_open_witness:
  "ai_move empty_maze (new_tank 1 1 True) (new_tank 13 13 False) [] [(1, 0), (0, -1), (-1, 0), (0, 1)] =
     Some ((new_tank 13 13 False)\<lparr>tank_x := 14, tank_y := 13, tank_dir := RIGHT\<rparr>, [])"
proof -
  have b: "on_board (new_tank 13 13 False)" "on_board (new_tank 1 1 True)"
    by (simp_all add: on_board_def new_tank_def in_grid_def)
  have nlos: "\<not> line_of_sight empty_maze (tank_pos (new_tank 13 13 False)) (tank_pos (new_tank 1 1 True))"
    by (simp add: line_of_sight_def tank_pos_def new_tank_def)
  have o: "open_step empty_maze (new_tank 13 13 False) (1, 0)"
    using maze_get_empty_maze [of 14 13] by (simp add: open_step_def new_tank_def in_grid_def is_wall_def)
  show ?thesis
    using ai_move_steps_first_open [OF wf_empty_maze b nlos, of "[]" "[(1, 0), (0, -1), (-1, 0), (0, 1)]"] o
    by (simp add: new_tank_def move_dir_def)
qed

text \<open>
  C12. Whatever the shuffled order, \<^verbatim>\<open>ai_move\<close> never raises on a well-formed maze,
  keeps the opponent on the board with its role, never moves it onto a wall, and adds at
  most one bullet.
\<close>

theorem ai_move_stays_on_board:
  assumes "wf_maze m" and "on_board ai" and "on_board player"
  shows "\<exists>ai' bs'. ai_move m player ai bs shuffled = Some (ai', bs') \<and> on_board ai' \<and>
            is_player ai' = is_player ai \<and> (tank_pos ai' = tank_pos ai \<or> \<not> is_wall m (tank_pos ai')) \<and>
            (bs' = bs \<or> (\<exists>b. bs' = bs @ [b]))"
  using ai_move_ok [OF assms, of bs shuffled] by blast

theorem ai_move_stays_on_board_witness:
  "\<exists>ai' bs'. ai_move empty_maze (new_tank 1 1 True) (new_tank 13 13 False) [] ai_moves = Some (ai', bs') \<and>
     on_board ai' \<and> is_player ai' = False \<and> bs' = []"
proof -
  have b: "on_board (new_tank 13 13 False)" "on_board (new_tank 1 1 True)"
    by (simp_all add: on_board_def new_tank_def in_grid_def)
  have nlos: "\<not> line_of_sight empty_maze (tank_pos (new_tank 13 13 False)) (tank_pos (new_tank 1 1 True))"
    by (simp add: line_of_sight_def tank_pos_def new_tank_def)
  obtain ai' bs' where r: "ai_move empty_maze (new_tank 1 1 True) (new_tank 13 13 False) [] ai_moves = Some (ai', bs')"
      "on_board ai'" "is_player ai' = is_player (new_tank 13 13 False)"
      "bs' = [] \<or> (\<exists>b. bs' = [] @ [b])"
    using ai_move_stays_on_board [OF wf_empty_maze b, of "[]" ai_moves] by blast
  have "bs' = []"
    using r(1) ai_can_see_player_eq [OF wf_empty_maze b] nlos
    by (auto simp: ai_move_def try_moves_eq [OF wf_empty_maze])
  with r show ?thesis by (auto simp: new_tank_def)
qed

end
