(* ===== verification/Session.thy ===== *)
theory Session
  imports Opponent
begin

text \<open>
  The game session and one iteration of the main loop (\<^verbatim>\<open>src/TankGame.py\<close>, lines
  125--136 and 158--231). The module's globals \<open>maze\<close>, \<open>player_tank\<close>,
  \<open>ai_tank\<close>, \<open>bullets\<close>, \<open>player_turn\<close>, \<open>game_over\<close>, \<open>result_text\<close> and
  \<open>running\<close> are the fields of \<open>session\<close>. What a frame reads from the outside
  world is a \<open>frame_input\<close>: the pygame event queue, the key state sampled by
  \<open>pygame.key.get_pressed\<close>, the order \<open>random.shuffle\<close> gives the opponent's
  steps, and the \<open>random.randint\<close> oracle a restart draws the new maze from. Drawing,
  \<open>time.sleep\<close> and \<open>clock.tick\<close> change no game state and are left out.
\<close>

section \<open>Definitions\<close>

record session =
  maze :: maze
  player_tank :: tank
  ai_tank :: tank
  bullets :: "bullet list"
  player_turn :: bool
  game_over :: bool
  result_text :: string
  running :: bool

record keys =
  key_left :: bool
  key_right :: bool
  key_up :: bool
  key_down :: bool
  key_space :: bool

datatype event = QUIT | MOUSEBUTTONDOWN "int \<times> int" | OTHER_EVENT

record frame_input =
  events :: "event list"
  pressed :: keys
  shuffled :: "(int \<times> int) list"
  wall_rnd :: "nat \<Rightarrow> cell"

definition reset_game :: "(nat \<Rightarrow> cell) \<Rightarrow> session \<Rightarrow> session option" where
  "reset_game rnd s = do {
     m \<leftarrow> generate_maze rnd;
     Some (s\<lparr>maze := m, player_tank := new_tank 1 1 True,
             ai_tank := new_tank (COLS - 2) (ROWS - 2) False, bullets := [],
             player_turn := True, game_over := False, result_text := ''''\<rparr>)
   }"

text \<open>Module start-up: \<open>reset_game()\<close>, then \<open>game_over\<close>, \<open>result_text\<close> and \<open>running\<close> set.\<close>

definition init_session :: "(nat \<Rightarrow> cell) \<Rightarrow> session option" where
  "init_session rnd = do {
     m \<leftarrow> generate_maze rnd;
     Some \<lparr>maze = m, player_tank = new_tank 1 1 True,
           ai_tank = new_tank (COLS - 2) (ROWS - 2) False, bullets = [],
           player_turn = True, game_over = False, result_text = '''', running = True\<rparr>
   }"

text \<open>The rectangle \<open>draw_restart_button\<close> returns, as \<open>(x, y, width, height)\<close>.\<close>

definition restart_button :: "int \<times> int \<times> int \<times> int" where
  "restart_button = (SCREEN_WIDTH div 2 - 100, SCREEN_HEIGHT div 2 + 50, 200, 50)"

text \<open>pygame's \<open>Rect.collidepoint\<close>: the right and bottom edges are outside.\<close>

definition collidepoint :: "int \<times> int \<times> int \<times> int \<Rightarrow> int \<times> int \<Rightarrow> bool" where
  "collidepoint r p \<longleftrightarrow>
     (case r of (x, y, w, h) \<Rightarrow> x \<le> fst p \<and> fst p < x + w \<and> y \<le> snd p \<and> snd p < y + h)"

fun handle_event :: "(nat \<Rightarrow> cell) \<Rightarrow> session \<Rightarrow> event \<Rightarrow> session option" where
  "handle_event rnd s QUIT = Some (s\<lparr>running := False\<rparr>)"
| "handle_event rnd s (MOUSEBUTTONDOWN pos) =
     (if game_over s \<and> collidepoint restart_button pos then reset_game rnd s else Some s)"
| "handle_event rnd s OTHER_EVENT = Some s"

fun handle_events :: "(nat \<Rightarrow> cell) \<Rightarrow> session \<Rightarrow> event list \<Rightarrow> session option" where
  "handle_events rnd s [] = Some s"
| "handle_events rnd s (e # es) = do { s' \<leftarrow> handle_event rnd s e; handle_events rnd s' es }"

text \<open>The player's turn, lines 190--209: every held arrow key moves, in this order.\<close>

definition player_step :: "keys \<Rightarrow> session \<Rightarrow> session option" where
  "player_step k s = do {
     p1 \<leftarrow> (if key_left k then tank_move (maze s) (player_tank s) (-1) 0 else Some (player_tank s));
     p2 \<leftarrow> (if key_right k then tank_move (maze s) p1 1 0 else Some p1);
     p3 \<leftarrow> (if key_up k then tank_move (maze s) p2 0 (-1) else Some p2);
     p4 \<leftarrow> (if key_down k then tank_move (maze s) p3 0 1 else Some p3);
     let moved = (key_left k \<or> key_right k \<or> key_up k \<or> key_down k);
     let bs = (if key_space k
               then bullets s @ [new_bullet (tank_x p4) (tank_y p4) (tank_dir p4) p4]
               else bullets s);
     Some (s\<lparr>player_tank := p4, bullets := bs,
             player_turn := (if moved then False else player_turn s)\<rparr>)
   }"

text \<open>The opponent's turn, lines 210--213.\<close>

definition ai_step :: "(int \<times> int) list \<Rightarrow> session \<Rightarrow> session option" where
  "ai_step sh s = do {
     (a, bs) \<leftarrow> ai_move (maze s) (player_tank s) (ai_tank s) (bullets s) sh;
     Some (s\<lparr>ai_tank := a, bullets := bs, player_turn := True\<rparr>)
   }"

text \<open>The bullet loop, lines 215--229, on the session's fields.\<close>

definition resolve_frame :: "session \<Rightarrow> session option" where
  "resolve_frame s = do {
     (bs, go, rt) \<leftarrow> move_bullets (maze s) (player_tank s) (ai_tank s) (game_over s, result_text s) (bullets s);
     Some (s\<lparr>bullets := bs, game_over := go, result_text := rt\<rparr>)
   }"

definition update :: "keys \<Rightarrow> (int \<times> int) list \<Rightarrow> session \<Rightarrow> session option" where
  "update k sh s =
     (if game_over s then Some s
      else do {
        s1 \<leftarrow> (if player_turn s then player_step k s else ai_step sh s);
        resolve_frame s1
      })"

definition frame :: "frame_input \<Rightarrow> session \<Rightarrow> session option" where
  "frame i s = do { s1 \<leftarrow> handle_events (wall_rnd i) s (events i); update (pressed i) (shuffled i) s1 }"

text \<open>\<open>while running:\<close> over the inputs of the successive frames.\<close>

fun run_game :: "frame_input list \<Rightarrow> session \<Rightarrow> session option" where
  "run_game [] s = Some s"
| "run_game (i # is) s = (if running s then do { s' \<leftarrow> frame i s; run_game is s' } else Some s)"

section \<open>Reference view of a frame\<close>

definition restart_click :: "event \<Rightarrow> bool" where
  "restart_click e = (case e of MOUSEBUTTONDOWN pos \<Rightarrow> collidepoint restart_button pos | _ \<Rightarrow> False)"

definition clicked :: "event list \<Rightarrow> bool" where
  "clicked es = list_ex restart_click es"

definition arrow :: "keys \<Rightarrow> bool" where
  "arrow k \<longleftrightarrow> key_left k \<or> key_right k \<or> key_up k \<or> key_down k"

definition fresh_session :: "maze \<Rightarrow> session \<Rightarrow> session" where
  "fresh_session m s = s\<lparr>maze := m, player_tank := new_tank 1 1 True,
      ai_tank := new_tank 13 13 False, bullets := [], player_turn := True,
      game_over := False, result_text := ''''\<rparr>"

text \<open>
  The arrows held in a frame, in the order the code tests them, and the tank's walk along
  them: one \<^verbatim>\<open>Tank.move\<close> per held arrow.
\<close>

definition arrow_held :: "keys \<Rightarrow> direction \<Rightarrow> bool" where
  "arrow_held k d =
     (case d of LEFT \<Rightarrow> key_left k | RIGHT \<Rightarrow> key_right k | UP \<Rightarrow> key_up k | DOWN \<Rightarrow> key_down k)"

definition held_arrows :: "keys \<Rightarrow> direction list" where
  "held_arrows k = filter (arrow_held k) [LEFT, RIGHT, UP, DOWN]"

fun walk :: "maze \<Rightarrow> tank \<Rightarrow> direction list \<Rightarrow> tank option" where
  "walk m t [] = Some t"
| "walk m t (d # ds) = do { t' \<leftarrow> tank_move m t (fst (delta d)) (snd (delta d)); walk m t' ds }"

text \<open>A concrete session on the open maze, for instances.\<close>

definition demo_session :: session where
  "demo_session = \<lparr>maze = empty_maze, player_tank = new_tank 1 1 True, ai_tank = new_tank 13 13 False,
     bullets = [], player_turn = True, game_over = False, result_text = [], running = True\<rparr>"

section \<open>Lemmas\<close>

lemma reset_game_eq: "reset_game rnd s = map_option (\<lambda>m. fresh_session m s) (generate_maze rnd)"
  by (cases "generate_maze rnd") (simp_all add: reset_game_def fresh_session_def)

lemma fresh_session_running [simp]:
  "fresh_session m (s\<lparr>running := r\<rparr>) = (fresh_session m s)\<lparr>running := r\<rparr>"
  "running (fresh_session m s) = running s" "game_over (fresh_session m s) = False"
  by (simp_all add: fresh_session_def)

text \<open>The event loop: quits clear \<open>running\<close>; a click on the button restarts a finished game once.\<close>

lemma handle_events_eq:
  "handle_events rnd s es =
     (if game_over s \<and> clicked es
      then map_option (\<lambda>m. (fresh_session m s)\<lparr>running := running s \<and> QUIT \<notin> set es\<rparr>) (generate_maze rnd)
      else Some (s\<lparr>running := running s \<and> QUIT \<notin> set es\<rparr>))"
proof (induction es arbitrary: s)
  case Nil
  then show ?case by (simp add: clicked_def)
next
  case (Cons e es)
  show ?case
  proof (cases e)
    case QUIT
    then show ?thesis using Cons.IH [of "s\<lparr>running := False\<rparr>"]
      by (simp add: clicked_def restart_click_def)
  next
    case (MOUSEBUTTONDOWN pos)
    show ?thesis
    proof (cases "game_over s \<and> collidepoint restart_button pos")
      case True
      then show ?thesis
        using MOUSEBUTTONDOWN Cons.IH
        by (cases "generate_maze rnd")
           (auto simp: reset_game_eq clicked_def restart_click_def)
    next
      case False
      then show ?thesis
        using MOUSEBUTTONDOWN Cons.IH [of s]
        by (auto simp: clicked_def restart_click_def)
    qed
  next
    case OTHER_EVENT
    then show ?thesis using Cons.IH [of s]
      by (simp add: clicked_def restart_click_def)
  qed
qed

lemma held_move_ok:
  assumes "wf_maze m" and "on_board t"
  shows "\<exists>t'. (if b then tank_move m t dx dy else Some t) = Some t' \<and> on_board t' \<and>
            is_player t' = is_player t \<and> (is_wall m (tank_pos t') \<longrightarrow> tank_pos t' = tank_pos t)"
  using assms by (auto simp: tank_move_eq on_board_def tank_pos_def)

lemma player_step_ok:
  assumes "wf_maze (maze s)" and "on_board (player_tank s)"
  shows "\<exists>p. player_step k s =
            Some (s\<lparr>player_tank := p,
                    bullets := (if key_space k then bullets s @ [new_bullet (tank_x p) (tank_y p) (tank_dir p) p]
                                else bullets s),
                    player_turn := (if arrow k then False else player_turn s)\<rparr>) \<and>
          on_board p \<and> is_player p = is_player (player_tank s) \<and>
          (is_wall (maze s) (tank_pos p) \<longrightarrow> tank_pos p = tank_pos (player_tank s))"
proof -
  obtain p1 where p1: "(if key_left k then tank_move (maze s) (player_tank s) (-1) 0 else Some (player_tank s)) = Some p1"
      "on_board p1" "is_player p1 = is_player (player_tank s)"
      "is_wall (maze s) (tank_pos p1) \<longrightarrow> tank_pos p1 = tank_pos (player_tank s)"
    using held_move_ok [OF assms] by blast
  obtain p2 where p2: "(if key_right k then tank_move (maze s) p1 1 0 else Some p1) = Some p2"
      "on_board p2" "is_player p2 = is_player p1" "is_wall (maze s) (tank_pos p2) \<longrightarrow> tank_pos p2 = tank_pos p1"
    using held_move_ok [OF assms(1) p1(2)] by blast
  obtain p3 where p3: "(if key_up k then tank_move (maze s) p2 0 (-1) else Some p2) = Some p3"
      "on_board p3" "is_player p3 = is_player p2" "is_wall (maze s) (tank_pos p3) \<longrightarrow> tank_pos p3 = tank_pos p2"
    using held_move_ok [OF assms(1) p2(2)] by blast
  obtain p4 where p4: "(if key_down k then tank_move (maze s) p3 0 1 else Some p3) = Some p4"
      "on_board p4" "is_player p4 = is_player p3" "is_wall (maze s) (tank_pos p4) \<longrightarrow> tank_pos p4 = tank_pos p3"
    using held_move_ok [OF assms(1) p3(2)] by blast
  have "player_step k s =
          Some (s\<lparr>player_tank := p4,
                  bullets := (if key_space k then bullets s @ [new_bullet (tank_x p4) (tank_y p4) (tank_dir p4) p4]
                              else bullets s),
                  player_turn := (if arrow k then False else player_turn s)\<rparr>)"
    using p1(1) p2(1) p3(1) p4(1) by (simp add: player_step_def arrow_def Let_def)
  moreover have "is_wall (maze s) (tank_pos p4) \<longrightarrow> tank_pos p4 = tank_pos (player_tank s)"
    using p1(4) p2(4) p3(4) p4(4) by auto
  ultimately show ?thesis using p1(3) p2(3) p3(3) p4(2,3) by auto
qed

lemma ai_step_ok:
  assumes "wf_maze (maze s)" and "on_board (ai_tank s)" and "on_board (player_tank s)"
  shows "\<exists>a bs. ai_step sh s = Some (s\<lparr>ai_tank := a, bullets := bs, player_turn := True\<rparr>) \<and>
            on_board a \<and> is_player a = is_player (ai_tank s) \<and>
            (is_wall (maze s) (tank_pos a) \<longrightarrow> tank_pos a = tank_pos (ai_tank s))"
  using ai_move_ok [OF assms, of "bullets s" sh] by (auto simp: ai_step_def)

lemma resolve_frame_eq:
  assumes "wf_maze (maze s)"
  shows "resolve_frame s =
    Some (s\<lparr>bullets := filter (survives (maze s)) (map bullet_move (bullets s)),
            game_over := fst (fold (record_hits (player_tank s) (ai_tank s))
                                (filter (survives (maze s)) (map bullet_move (bullets s)))
                                (game_over s, result_text s)),
            result_text := snd (fold (record_hits (player_tank s) (ai_tank s))
                                (filter (survives (maze s)) (map bullet_move (bullets s)))
                                (game_over s, result_text s))\<rparr>)"
  by (simp add: resolve_frame_def move_bullets_eq [OF assms] split: prod.split del: move_bullets.simps)

lemma no_wall_in_empty_maze: "in_grid x y \<Longrightarrow> \<not> is_wall empty_maze (x, y)"
  by (simp add: is_wall_def maze_get_empty_maze)

section \<open>Claims on the session\<close>

text \<open>
  C13. A restart reinitialises the session (spec section 8): a fresh maze drawn by
  \<open>generate_maze\<close>, the player at \<open>(1, 1)\<close> and the opponent at \<open>(13, 13)\<close>, both
  facing \<open>UP\<close>, no bullets, the player's turn and no outcome; only \<open>running\<close> is kept.
\<close>

theorem reset_game_reinitialises:
  assumes "valid_rnd rnd"
  shows "\<exists>m s'. generate_maze rnd = Some m \<and> wf_maze m \<and> reset_game rnd s = Some s' \<and> maze s' = m \<and>
           player_tank s' = new_tank 1 1 True \<and> ai_tank s' = new_tank 13 13 False \<and>
           bullets s' = [] \<and> player_turn s' \<and> \<not> game_over s' \<and> result_text s' = '''' \<and>
           running s' = running s"
  using generate_maze_spec [OF assms] by (auto simp: reset_game_eq fresh_session_def)

theorem reset_game_reinitialises_witness:
  "\<exists>m s'. generate_maze (\<lambda>_. (7, 7)) = Some m \<and> wf_maze m \<and>
     reset_game (\<lambda>_. (7, 7)) demo_session = Some s' \<and> maze s' = m \<and>
     player_tank s' = new_tank 1 1 True \<and> ai_tank s' = new_tank 13 13 False \<and>
     bullets s' = [] \<and> player_turn s' \<and> \<not> game_over s' \<and> result_text s' = '''' \<and>
     running s' = running demo_session"
  by (rule reset_game_reinitialises) (simp add: valid_rnd_def wall_picks_def)

text \<open>
  C14. Once the game is over a frame changes nothing but \<open>running\<close> unless the restart
  button is clicked: no move, no shot, no bullet advances (spec sections 4.4 and 8).
\<close>

theorem frame_frozen_after_game_over:
  assumes "game_over s" and "\<not> clicked (events i)"
  shows "frame i s = Some (s\<lparr>running := running s \<and> QUIT \<notin> set (events i)\<rparr>)"
  using assms by (simp add: frame_def handle_events_eq update_def)

theorem frame_frozen_after_game_over_witness:
  "frame \<lparr>events = [QUIT], pressed = \<lparr>key_left = True, key_right = False, key_up = False,
                                     key_down = False, key_space = True\<rparr>,
          shuffled = ai_moves, wall_rnd = (\<lambda>_. (0, 0))\<rparr>
     (demo_session\<lparr>game_over := True, result_text := ''WIN''\<rparr>) =
   Some (demo_session\<lparr>game_over := True, result_text := ''WIN'', running := False\<rparr>)"
  using frame_frozen_after_game_over
    [of "demo_session\<lparr>game_over := True, result_text := ''WIN''\<rparr>"
        "\<lparr>events = [QUIT], pressed = \<lparr>key_left = True, key_right = False, key_up = False,
                                     key_down = False, key_space = True\<rparr>,
          shuffled = ai_moves, wall_rnd = (\<lambda>_. (0, 0))\<rparr>"]
  by (simp add: clicked_def restart_click_def)

text \<open>
  C15. In the player's turn the turn passes to the opponent exactly when an arrow key is
  held; the space key alone fires one bullet and keeps the turn (spec section 4.4). The
  shot leaves from the tank's cell and facing after this frame's moves, and the opponent
  and the maze are untouched.
\<close>

theorem player_step_turn:
  assumes "wf_maze (maze s)" and "on_board (player_tank s)" and "player_turn s"
  shows "\<exists>s'. player_step k s = Some s' \<and> player_turn s' = (\<not> arrow k) \<and>
            bullets s' = bullets s @ (if key_space k
                                      then [new_bullet (tank_x (player_tank s')) (tank_y (player_tank s'))
                                              (tank_dir (player_tank s')) (player_tank s')]
                                      else []) \<and>
            ai_tank s' = ai_tank s \<and> maze s' = maze s \<and> game_over s' = game_over s"
  using player_step_ok [OF assms(1,2), of k] assms(3) by auto

theorem player_step_turn_witness:
  "\<exists>s'. player_step \<lparr>key_left = False, key_right = False, key_up = False, key_down = False,
                      key_space = True\<rparr> demo_session = Some s' \<and>
     player_turn s' = True \<and> length (bullets s') = 1"
proof -
  have a: "wf_maze (maze demo_session)" "on_board (player_tank demo_session)" "player_turn demo_session"
    by (simp_all add: demo_session_def wf_empty_maze on_board_def new_tank_def in_grid_def)
  show ?thesis
    using player_step_turn [OF a, of "\<lparr>key_left = False, key_right = False, key_up = False,
                                        key_down = False, key_space = True\<rparr>"]
    by (auto simp: arrow_def demo_session_def)
qed

text \<open>
  C16. The player's turn is a walk along the held arrows: every held arrow key applies
  \<^verbatim>\<open>Tank.move\<close> once, in the order LEFT, RIGHT, UP, DOWN, each from where the previous
  one left the tank. So several arrows held in one frame give several moves in one turn;
  the spec allows one move per turn.
\<close>

theorem player_step_walks_held_arrows:
  assumes "wf_maze (maze s)"
  shows "\<exists>s'. player_step k s = Some s' \<and> walk (maze s) (player_tank s) (held_arrows k) = Some (player_tank s')"
  by (cases "key_left k"; cases "key_right k"; cases "key_up k"; cases "key_down k")
     (simp_all add: player_step_def held_arrows_def arrow_held_def Let_def tank_move_eq [OF assms])

theorem player_step_walks_held_arrows_witness:
  "\<exists>s'. player_step \<lparr>key_left = False, key_right = True, key_up = False, key_down = True, key_space = False\<rparr>
          demo_session = Some s' \<and>
     walk (maze demo_session) (player_tank demo_session)
       (held_arrows \<lparr>key_left = False, key_right = True, key_up = False, key_down = True, key_space = False\<rparr>)
       = Some (player_tank s')"
  by (rule player_step_walks_held_arrows) (simp add: demo_session_def wf_empty_maze)

end
