(* ===== verification/Turns.thy ===== *)
theory Turns
  imports Session
begin

text \<open>
  The game as a state machine. \<open>reachable\<close> holds the sessions the program can be in
  at the top of \<open>while running:\<close>: the start-up session, and every session one frame
  leads to from a reachable running one, for any event queue, key state and shuffle, and
  any maze draws \<open>random.randint\<close> can make. \<open>session_inv\<close> is the invariant of
  these sessions, proved by rule induction. The turn controller of spec section 4.4 is
  the abstract machine \<open>turn_spec\<close> over \<open>phase\<close>s, whose inputs are the arrow
  keys, the restart click and whether a bullet reaches the tank it can hit (\<open>frame_hit\<close>,
  stated with the reference view of the resolver); it is deterministic, and every frame
  refines it.
\<close>

section \<open>Definitions\<close>

definition tanks_ok :: "session \<Rightarrow> bool" where
  "tanks_ok s \<longleftrightarrow> wf_maze (maze s) \<and>
     on_board (player_tank s) \<and> on_board (ai_tank s) \<and>
     is_player (player_tank s) \<and> \<not> is_player (ai_tank s) \<and>
     (is_wall (maze s) (tank_pos (player_tank s)) \<longrightarrow> tank_pos (player_tank s) = (1, 1)) \<and>
     (is_wall (maze s) (tank_pos (ai_tank s)) \<longrightarrow> tank_pos (ai_tank s) = (13, 13))"

definition outcome_ok :: "session \<Rightarrow> bool" where
  "outcome_ok s \<longleftrightarrow>
     (game_over s \<and> (result_text s = ''WIN'' \<or> result_text s = ''LOSE'')) \<or>
     (\<not> game_over s \<and> result_text s = '''')"

definition session_inv :: "session \<Rightarrow> bool" where
  "session_inv s \<longleftrightarrow> tanks_ok s \<and> outcome_ok s \<and>
     list_all (survives (maze s)) (bullets s) \<and>
     (game_over s \<or> \<not> list_ex (is_hit (player_tank s) (ai_tank s)) (bullets s))"

inductive reachable :: "session \<Rightarrow> bool" where
  start: "valid_rnd rnd \<Longrightarrow> init_session rnd = Some s \<Longrightarrow> reachable s"
| step: "reachable s \<Longrightarrow> running s \<Longrightarrow> valid_rnd (wall_rnd i) \<Longrightarrow> frame i s = Some s' \<Longrightarrow> reachable s'"

datatype phase = PlayerTurn | OpponentTurn | GameOver

definition phase_of :: "session \<Rightarrow> phase" where
  "phase_of s = (if game_over s then GameOver else if player_turn s then PlayerTurn else OpponentTurn)"

text \<open>
  The turn controller of the spec, one frame at a time, given whether an arrow key is held,
  whether the restart button is clicked, and whether the frame's bullet pass puts a bullet
  on the tank it can hit. A hit always ends the game; without one the player keeps the turn
  exactly while no arrow is held and the opponent always hands it back. A restart plays the
  player's turn in the same frame.
\<close>

inductive turn_spec :: "phase \<Rightarrow> bool \<Rightarrow> bool \<Rightarrow> bool \<Rightarrow> phase \<Rightarrow> bool" where
  wait: "turn_spec PlayerTurn False c False PlayerTurn"
| hand_over: "turn_spec PlayerTurn True c False OpponentTurn"
| opponent: "turn_spec OpponentTurn k c False PlayerTurn"
| hit: "q \<noteq> GameOver \<Longrightarrow> turn_spec q k c True GameOver"
| frozen: "turn_spec GameOver k False h GameOver"
| restart: "turn_spec PlayerTurn k False h q \<Longrightarrow> turn_spec GameOver k True h q"

text \<open>
  The abstract hit of a frame: after the events and the turn, some bullet, moved one cell and
  still in the grid off the walls, is on the cell of the tank it can hit. It is stated with
  the reference view of the resolver (\<open>survives\<close>, \<open>is_hit\<close>), not with
  \<open>record_hits\<close>.
\<close>

definition pass_hits :: "session \<Rightarrow> bool" where
  "pass_hits s = list_ex (is_hit (player_tank s) (ai_tank s))
                   (filter (survives (maze s)) (map bullet_move (bullets s)))"

definition frame_hit :: "frame_input \<Rightarrow> session \<Rightarrow> bool" where
  "frame_hit i s =
     (case handle_events (wall_rnd i) s (events i) of
        None \<Rightarrow> False
      | Some s0 \<Rightarrow> \<not> game_over s0 \<and>
          (case (if player_turn s0 then player_step (pressed i) s0 else ai_step (shuffled i) s0) of
             None \<Rightarrow> False
           | Some s1 \<Rightarrow> pass_hits s1))"

section \<open>The invariant\<close>

lemma session_inv_running [simp]: "session_inv (s\<lparr>running := r\<rparr>) = session_inv s"
  by (simp add: session_inv_def tanks_ok_def outcome_ok_def)

lemma fresh_session_inv: "wf_maze m \<Longrightarrow> session_inv (fresh_session m s)"
  by (simp add: session_inv_def tanks_ok_def outcome_ok_def fresh_session_def on_board_def
                new_tank_def in_grid_def tank_pos_def)

lemma init_session_eq: "init_session rnd = map_option (\<lambda>m. fresh_session m demo_session) (generate_maze rnd)"
  by (cases "generate_maze rnd") (simp_all add: init_session_def fresh_session_def demo_session_def)

lemma handle_events_inv:
  assumes "session_inv s" and "valid_rnd rnd"
  shows "\<exists>s'. handle_events rnd s es = Some s' \<and> session_inv s'"
  using generate_maze_spec [OF assms(2)] assms(1)
  by (auto simp: handle_events_eq fresh_session_inv)

lemma turn_inv:
  assumes "tanks_ok s"
  shows "\<exists>s1. (if player_turn s then player_step k s else ai_step sh s) = Some s1 \<and> tanks_ok s1 \<and>
            maze s1 = maze s \<and> game_over s1 = game_over s \<and> result_text s1 = result_text s \<and>
            player_turn s1 = (player_turn s \<longrightarrow> \<not> arrow k)"
proof (cases "player_turn s")
  case True
  from assms have a: "wf_maze (maze s)" "on_board (player_tank s)"
    by (simp_all add: tanks_ok_def)
  obtain p where p: "player_step k s =
            Some (s\<lparr>player_tank := p,
                    bullets := (if key_space k then bullets s @ [new_bullet (tank_x p) (tank_y p) (tank_dir p) p]
                                else bullets s),
                    player_turn := (if arrow k then False else player_turn s)\<rparr>)"
      "on_board p" "is_player p = is_player (player_tank s)"
      "is_wall (maze s) (tank_pos p) \<longrightarrow> tank_pos p = tank_pos (player_tank s)"
    using player_step_ok [OF a, of k] by blast
  with True assms show ?thesis by (auto simp: tanks_ok_def)
next
  case False
  from assms have a: "wf_maze (maze s)" "on_board (ai_tank s)" "on_board (player_tank s)"
    by (simp_all add: tanks_ok_def)
  obtain a' bs where r: "ai_step sh s = Some (s\<lparr>ai_tank := a', bullets := bs, player_turn := True\<rparr>)"
      "on_board a'" "is_player a' = is_player (ai_tank s)"
      "is_wall (maze s) (tank_pos a') \<longrightarrow> tank_pos a' = tank_pos (ai_tank s)"
    using ai_step_ok [OF a, of sh] by blast
  with False assms show ?thesis by (auto simp: tanks_ok_def)
qed

lemma hit_outcome_cases: "hit_outcome b = ''WIN'' \<or> hit_outcome b = ''LOSE''"
  by (simp add: hit_outcome_def)

lemma resolve_frame_inv:
  assumes "tanks_ok s" and "\<not> game_over s" and "result_text s = ''''"
  shows "\<exists>s'. resolve_frame s = Some s' \<and> session_inv s' \<and>
            maze s' = maze s \<and> player_tank s' = player_tank s \<and> ai_tank s' = ai_tank s \<and>
            player_turn s' = player_turn s \<and> running s' = running s"
proof -
  have wf: "wf_maze (maze s)" using assms(1) by (simp add: tanks_ok_def)
  let ?bs = "filter (survives (maze s)) (map bullet_move (bullets s))"
  let ?hs = "filter (is_hit (player_tank s) (ai_tank s)) ?bs"
  have st: "fold (record_hits (player_tank s) (ai_tank s)) ?bs (game_over s, result_text s) =
              (if ?hs = [] then (False, '''') else (True, hit_outcome (last ?hs)))"
    using assms(2,3) by (simp add: fold_record_hits)
  have "session_inv (s\<lparr>bullets := ?bs,
            game_over := fst (if ?hs = [] then (False, '''') else (True, hit_outcome (last ?hs))),
            result_text := snd (if ?hs = [] then (False, '''') else (True, hit_outcome (last ?hs)))\<rparr>)"
    using assms(1) hit_outcome_cases [of "last ?hs"]
    by (auto simp: session_inv_def tanks_ok_def outcome_ok_def list_all_iff list_ex_iff filter_empty_conv)
  then show ?thesis
    by (simp add: resolve_frame_eq [OF wf] st)
qed

lemma update_inv:
  assumes "session_inv s"
  shows "\<exists>s'. update k sh s = Some s' \<and> session_inv s'"
proof (cases "game_over s")
  case True
  with assms show ?thesis by (simp add: update_def)
next
  case False
  with assms have t: "tanks_ok s" and r: "result_text s = ''''"
    by (auto simp: session_inv_def outcome_ok_def)
  obtain s1 where s1: "(if player_turn s then player_step k s else ai_step sh s) = Some s1" "tanks_ok s1"
      "game_over s1 = game_over s" "result_text s1 = result_text s"
    using turn_inv [OF t, of k sh] by blast
  obtain s' where "resolve_frame s1 = Some s'" "session_inv s'"
    using resolve_frame_inv [OF s1(2)] s1(3,4) False r by auto
  with s1(1) False show ?thesis by (auto simp: update_def)
qed

lemma frame_inv:
  assumes "session_inv s" and "valid_rnd (wall_rnd i)"
  shows "\<exists>s'. frame i s = Some s' \<and> session_inv s'"
proof -
  obtain s1 where "handle_events (wall_rnd i) s (events i) = Some s1" "session_inv s1"
    using handle_events_inv [OF assms] by blast
  with update_inv [of s1 "pressed i" "shuffled i"] show ?thesis
    by (auto simp: frame_def)
qed

lemma reachable_inv: "reachable s \<Longrightarrow> session_inv s"
proof (induction rule: reachable.induct)
  case (start rnd s)
  then show ?case
    using generate_maze_spec [OF start(1)] by (auto simp: init_session_eq fresh_session_inv)
next
  case (step s i s')
  then show ?case using frame_inv [OF step.IH step.hyps(3)] by auto
qed

section \<open>The turn controller\<close>

inductive_cases turn_spec_PlayerTurnE: "turn_spec PlayerTurn k c h q"
inductive_cases turn_spec_OpponentTurnE: "turn_spec OpponentTurn k c h q"
inductive_cases turn_spec_GameOverE: "turn_spec GameOver k c h q"

text \<open>The controller is deterministic: the inputs of a frame fix the next phase.\<close>

lemma turn_spec_deterministic:
  assumes "turn_spec q k c h q1" and "turn_spec q k c h q2"
  shows "q1 = q2"
  using assms
proof (induction arbitrary: q2 rule: turn_spec.induct)
  case (restart k h q)
  from restart.prems show ?case
    by (rule turn_spec_GameOverE) (auto intro: restart.IH)
next
  case (hit q k c)
  then show ?case by (cases q) (auto elim: turn_spec_PlayerTurnE turn_spec_OpponentTurnE)
qed (auto elim: turn_spec_PlayerTurnE turn_spec_OpponentTurnE turn_spec_GameOverE)

lemma resolve_frame_hits:
  assumes "tanks_ok s" and "\<not> game_over s" and "result_text s = ''''"
    and "resolve_frame s = Some s'"
  shows "game_over s' = pass_hits s"
proof -
  have wf: "wf_maze (maze s)" using assms(1) by (simp add: tanks_ok_def)
  let ?bs = "filter (survives (maze s)) (map bullet_move (bullets s))"
  let ?hs = "filter (is_hit (player_tank s) (ai_tank s)) ?bs"
  have "game_over s' = fst (fold (record_hits (player_tank s) (ai_tank s)) ?bs (game_over s, result_text s))"
    using assms(4) by (auto simp: resolve_frame_eq [OF wf])
  also have "\<dots> = (?hs \<noteq> [])"
    using assms(2,3) by (simp add: fold_record_hits)
  finally show ?thesis by (simp add: pass_hits_def list_ex_iff filter_empty_conv)
qed

lemma update_phase:
  assumes "tanks_ok s" and "\<not> game_over s" and "result_text s = ''''"
    and "(if player_turn s then player_step k s else ai_step sh s) = Some s1"
    and "update k sh s = Some s'"
  shows "turn_spec (phase_of s) (arrow k) c (pass_hits s1) (phase_of s')"
proof -
  obtain s1' where t: "(if player_turn s then player_step k s else ai_step sh s) = Some s1'" "tanks_ok s1'"
      "game_over s1' = game_over s" "result_text s1' = result_text s"
      "player_turn s1' = (player_turn s \<longrightarrow> \<not> arrow k)"
    using turn_inv [OF assms(1), of k sh] by blast
  have e: "s1' = s1" using t(1) assms(4) by simp
  have r: "resolve_frame s1 = Some s'" using assms(2,4,5) by (simp add: update_def)
  have go: "game_over s' = pass_hits s1"
    using resolve_frame_hits [OF _ _ _ r] t(2-4) assms(2,3) e by simp
  obtain s2 where "resolve_frame s1 = Some s2" "player_turn s2 = player_turn s1"
    using resolve_frame_inv [of s1] t(2-4) assms(2,3) e by auto
  then have pt: "player_turn s' = (player_turn s \<longrightarrow> \<not> arrow k)"
    using r t(5) e by simp
  show ?thesis
  proof (cases "pass_hits s1")
    case True
    then show ?thesis using assms(2) go by (auto simp: phase_of_def intro: turn_spec.hit)
  next
    case False
    then show ?thesis using assms(2) go pt
      by (cases "player_turn s"; cases "arrow k") (auto simp: phase_of_def intro: turn_spec.intros)
  qed
qed

lemma frame_phase:
  assumes "session_inv s" and "valid_rnd (wall_rnd i)" and "frame i s = Some s'"
  shows "turn_spec (phase_of s) (arrow (pressed i)) (clicked (events i)) (frame_hit i s) (phase_of s')"
proof (cases "game_over s")
  case True
  show ?thesis
  proof (cases "clicked (events i)")
    case False
    with True assms(3) have "s' = s\<lparr>running := running s \<and> QUIT \<notin> set (events i)\<rparr>"
      by (simp add: frame_def handle_events_eq update_def)
    with True False show ?thesis by (simp add: phase_of_def turn_spec.frozen)
  next
    case clk: True
    obtain m where m: "generate_maze (wall_rnd i) = Some m" "wf_maze m"
      using generate_maze_spec [OF assms(2)] by blast
    let ?s0 = "(fresh_session m s)\<lparr>running := running s \<and> QUIT \<notin> set (events i)\<rparr>"
    have h: "handle_events (wall_rnd i) s (events i) = Some ?s0"
      using True clk m(1) by (simp add: handle_events_eq)
    have u: "update (pressed i) (shuffled i) ?s0 = Some s'"
      using assms(3) h by (simp add: frame_def)
    have t: "tanks_ok ?s0" using fresh_session_inv [OF m(2), of s]
      by (simp add: session_inv_def tanks_ok_def)
    obtain s1 where s1: "(if player_turn ?s0 then player_step (pressed i) ?s0 else ai_step (shuffled i) ?s0) = Some s1"
      using turn_inv [OF t] by blast
    have "turn_spec (phase_of ?s0) (arrow (pressed i)) False (pass_hits s1) (phase_of s')"
      by (rule update_phase [OF t _ _ s1 u]) (simp_all add: fresh_session_def)
    moreover have "frame_hit i s = pass_hits s1" using h s1 by (simp add: frame_hit_def)
    ultimately have "turn_spec PlayerTurn (arrow (pressed i)) False (frame_hit i s) (phase_of s')"
      by (simp add: phase_of_def fresh_session_def)
    with True clk show ?thesis by (simp add: phase_of_def turn_spec.restart)
  qed
next
  case False
  let ?s0 = "s\<lparr>running := running s \<and> QUIT \<notin> set (events i)\<rparr>"
  have h: "handle_events (wall_rnd i) s (events i) = Some ?s0"
    using False by (simp add: handle_events_eq)
  have u: "update (pressed i) (shuffled i) ?s0 = Some s'"
    using assms(3) h by (simp add: frame_def)
  have t: "tanks_ok ?s0" and r: "result_text ?s0 = ''''"
    using assms(1) False by (simp_all add: session_inv_def tanks_ok_def outcome_ok_def)
  obtain s1 where s1: "(if player_turn ?s0 then player_step (pressed i) ?s0 else ai_step (shuffled i) ?s0) = Some s1"
    using turn_inv [OF t] by blast
  have "turn_spec (phase_of ?s0) (arrow (pressed i)) (clicked (events i)) (pass_hits s1) (phase_of s')"
    by (rule update_phase [OF t _ r s1 u]) (simp add: False)
  moreover have "frame_hit i s = pass_hits s1" using h s1 False by (simp add: frame_hit_def)
  moreover have "phase_of ?s0 = phase_of s" by (simp add: phase_of_def)
  ultimately show ?thesis by simp
qed

section \<open>A reachable start-up session\<close>

definition start_rnd :: "nat \<Rightarrow> cell" where
  "start_rnd i = (int i mod 15, int (7 * i) mod 15)"

lemma valid_start_rnd: "valid_rnd start_rnd"
  by (simp add: valid_rnd_def wall_picks_def start_rnd_def upt_rec)

lemma reachable_start_session: "reachable (the (init_session start_rnd))"
proof -
  obtain m where "generate_maze start_rnd = Some m"
    using generate_maze_spec [OF valid_start_rnd] by blast
  then have "init_session start_rnd = Some (the (init_session start_rnd))"
    by (simp add: init_session_eq)
  with valid_start_rnd show ?thesis by (rule reachable.start)
qed

lemma start_session_fields:
  "\<not> game_over (the (init_session start_rnd)) \<and> player_turn (the (init_session start_rnd)) \<and>
   running (the (init_session start_rnd)) \<and> bullets (the (init_session start_rnd)) = []"
proof -
  obtain m where "generate_maze start_rnd = Some m"
    using generate_maze_spec [OF valid_start_rnd] by blast
  then show ?thesis by (simp add: init_session_eq fresh_session_def demo_session_def)
qed

definition idle_input :: frame_input where
  "idle_input = \<lparr>events = [], pressed = \<lparr>key_left = False, key_right = False, key_up = False,
                                       key_down = False, key_space = False\<rparr>,
                 shuffled = ai_moves, wall_rnd = start_rnd\<rparr>"

section \<open>Claims on the running game\<close>

text \<open>
  C17. In every reachable session both tanks are on the board, every bullet is inside the
  grid on an open cell, and a tank stands on a wall only at its start cell: the player at
  \<open>(1, 1)\<close>, the opponent at \<open>(13, 13)\<close> (spec section 8, first property; the tanks'
  part holds only up to the start cells, see C21).
\<close>

theorem reachable_board_safety:
  assumes "reachable s"
  shows "on_board (player_tank s) \<and> on_board (ai_tank s) \<and>
         list_all (\<lambda>b. in_grid (bullet_x b) (bullet_y b) \<and> \<not> is_wall (maze s) (bullet_pos b)) (bullets s) \<and>
         (is_wall (maze s) (tank_pos (player_tank s)) \<longrightarrow> tank_pos (player_tank s) = (1, 1)) \<and>
         (is_wall (maze s) (tank_pos (ai_tank s)) \<longrightarrow> tank_pos (ai_tank s) = (13, 13))"
  using reachable_inv [OF assms]
  by (simp add: session_inv_def tanks_ok_def survives_def list_all_iff)

theorem reachable_board_safety_witness:
  "on_board (player_tank (the (init_session start_rnd))) \<and> on_board (ai_tank (the (init_session start_rnd))) \<and>
   list_all (\<lambda>b. in_grid (bullet_x b) (bullet_y b) \<and> \<not> is_wall (maze (the (init_session start_rnd))) (bullet_pos b))
     (bullets (the (init_session start_rnd)))"
  using reachable_board_safety [OF reachable_start_session] by blast

text \<open>
  C18. In every reachable session the outcome agrees with the terminal flag: over with
  \<open>WIN\<close> or \<open>LOSE\<close>, or running with no outcome; and while the game runs no bullet of the
  player is on the opponent's cell and no bullet of the opponent on the player's: a hit is
  never left undetected.
\<close>

theorem reachable_outcome:
  assumes "reachable s"
  shows "(game_over s \<and> (result_text s = ''WIN'' \<or> result_text s = ''LOSE'')) \<or>
         (\<not> game_over s \<and> result_text s = '''' \<and> \<not> list_ex (is_hit (player_tank s) (ai_tank s)) (bullets s))"
  using reachable_inv [OF assms] by (auto simp: session_inv_def outcome_ok_def)

theorem reachable_outcome_witness:
  "\<not> game_over (the (init_session start_rnd)) \<and> result_text (the (init_session start_rnd)) = '''' \<and>
   \<not> list_ex (is_hit (player_tank (the (init_session start_rnd))) (ai_tank (the (init_session start_rnd))))
       (bullets (the (init_session start_rnd)))"
  using reachable_outcome [OF reachable_start_session] start_session_fields by blast

text \<open>
  C19. From a reachable session no frame raises, whatever the events, keys and shuffle:
  every index the program computes is in range.
\<close>

theorem frame_never_raises:
  assumes "reachable s" and "valid_rnd (wall_rnd i)"
  shows "\<exists>s'. frame i s = Some s'"
  using frame_inv [OF reachable_inv [OF assms(1)] assms(2)] by blast

theorem frame_never_raises_witness:
  "\<exists>s'. frame idle_input (the (init_session start_rnd)) = Some s'"
  by (rule frame_never_raises [OF reachable_start_session])
     (simp add: idle_input_def valid_start_rnd)

text \<open>
  C20. Refinement of the turn controller: every frame from a reachable session is a step of
  \<open>turn_spec\<close> on the abstract phases, driven by the arrow keys, the restart click and
  the abstract hit of the frame (\<open>frame_hit\<close>). A frame in which a bullet reaches the tank
  it can hit ends the game; otherwise the player keeps the turn exactly while no arrow key
  is held and the opponent always hands the turn back; a finished game stays finished until
  the restart button is clicked, and a restart plays the player's turn at once (spec section
  4.4). Since \<open>turn_spec\<close> is deterministic, the next phase is fixed by these inputs.
\<close>

theorem frame_refines_turn_spec:
  assumes "reachable s" and "valid_rnd (wall_rnd i)" and "frame i s = Some s'"
  shows "turn_spec (phase_of s) (arrow (pressed i)) (clicked (events i)) (frame_hit i s) (phase_of s')"
  using frame_phase [OF reachable_inv [OF assms(1)] assms(2,3)] .

theorem frame_refines_turn_spec_witness:
  "\<exists>s'. frame idle_input (the (init_session start_rnd)) = Some s' \<and>
     turn_spec PlayerTurn False False (frame_hit idle_input (the (init_session start_rnd))) (phase_of s')"
proof -
  obtain s' where s': "frame idle_input (the (init_session start_rnd)) = Some s'"
    using frame_inv [OF reachable_inv [OF reachable_start_session], of idle_input]
    by (auto simp: idle_input_def valid_start_rnd)
  have "turn_spec (phase_of (the (init_session start_rnd))) (arrow (pressed idle_input))
          (clicked (events idle_input)) (frame_hit idle_input (the (init_session start_rnd))) (phase_of s')"
    by (rule frame_refines_turn_spec [OF reachable_start_session _ s'])
       (simp add: idle_input_def valid_start_rnd)
  with s' start_session_fields show ?thesis
    by (auto simp: phase_of_def idle_input_def arrow_def clicked_def)
qed

text \<open>
  C21. The spec's invariant that a tank never stands on a wall does not hold at start-up:
  the maze is drawn without regard to the start cells, and for every draw of the random
  generator the player starts on a wall exactly when \<open>(1, 1)\<close> is among the 20 drawn
  cells, the opponent exactly when \<open>(13, 13)\<close> is. Tanks only ever move onto open cells,
  so this is the only way a tank is on a wall (C17).
\<close>

theorem start_on_wall_iff_drawn:
  assumes "valid_rnd rnd"
  shows "\<exists>s. init_session rnd = Some s \<and> reachable s \<and>
           (is_wall (maze s) (tank_pos (player_tank s)) \<longleftrightarrow> (1, 1) \<in> set (wall_picks rnd)) \<and>
           (is_wall (maze s) (tank_pos (ai_tank s)) \<longleftrightarrow> (13, 13) \<in> set (wall_picks rnd))"
proof -
  obtain m where m: "generate_maze rnd = Some m"
      "\<forall>x y. in_grid x y \<longrightarrow> maze_get m x y = Some (if (x, y) \<in> set (wall_picks rnd) then 1 else 0)"
    using generate_maze_spec [OF assms] by blast
  have i: "init_session rnd = Some (fresh_session m demo_session)"
    by (simp add: init_session_eq m(1))
  have "is_wall m (1, 1) \<longleftrightarrow> (1, 1) \<in> set (wall_picks rnd)"
    using m(2) by (simp add: is_wall_def in_grid_def)
  moreover have "is_wall m (13, 13) \<longleftrightarrow> (13, 13) \<in> set (wall_picks rnd)"
    using m(2) by (simp add: is_wall_def in_grid_def)
  ultimately show ?thesis
    using reachable.start [OF assms i] i by (simp add: fresh_session_def new_tank_def tank_pos_def)
qed

theorem start_on_wall_iff_drawn_witness:
  "\<exists>s. init_session (\<lambda>_. (1, 1)) = Some s \<and> reachable s \<and> is_wall (maze s) (tank_pos (player_tank s))"
proof -
  have v: "valid_rnd (\<lambda>_. (1, 1))" by (simp add: valid_rnd_def wall_picks_def)
  have p: "(1, 1) \<in> set (wall_picks (\<lambda>_. (1, 1)))" by (simp add: wall_picks_def upt_rec)
  show ?thesis using start_on_wall_iff_drawn [OF v] p by blast
qed

text \<open>
  C22. The game loop never raises: from a reachable session, \<^verbatim>\<open>while running:\<close> over any
  sequence of frames with valid random draws returns a reachable session; it stops early
  exactly when a frame has cleared \<open>running\<close>.
\<close>

theorem run_game_total:
  assumes "reachable s" and "list_all (\<lambda>i. valid_rnd (wall_rnd i)) is"
  shows "\<exists>s'. run_game is s = Some s' \<and> reachable s'"
  using assms
proof (induction "is" arbitrary: s)
  case Nil
  then show ?case by simp
next
  case (Cons i "is")
  show ?case
  proof (cases "running s")
    case True
    obtain s1 where s1: "frame i s = Some s1"
      using frame_inv [OF reachable_inv [OF Cons.prems(1)]] Cons.prems(2) by auto
    have "reachable s1"
      using reachable.step [OF Cons.prems(1) True _ s1] Cons.prems(2) by simp
    with Cons.IH [of s1] Cons.prems(2) True s1 show ?thesis by simp
  next
    case False
    with Cons.prems(1) show ?thesis by simp
  qed
qed

theorem run_game_total_witness:
  "\<exists>s'. run_game [idle_input, idle_input] (the (init_session start_rnd)) = Some s' \<and> reachable s'"
  by (rule run_game_total [OF reachable_start_session]) (simp add: idle_input_def valid_start_rnd)

end
