(* ===== verification/Spec2Isabelle.thy ===== *)
theory Spec2Isabelle
  imports Turns
begin

text \<open>
  \<^bold>\<open>A verified model of the turn-based tank game\<close> (\<^verbatim>\<open>src/TankGame.py\<close>).

  \<^bold>\<open>The program.\<close> One Python module: a \<open>15 \<times> 15\<close> maze of 0s and 1s with 20 random
  walls (\<^verbatim>\<open>generate_maze\<close>), two \<^verbatim>\<open>Tank\<close> objects (the player and the opponent), a
  list of \<^verbatim>\<open>Bullet\<close>s, and a \<^verbatim>\<open>while running:\<close> loop. Each frame handles the pygame
  events (quit, restart click). It then plays the player's turn (arrow keys move, space
  fires) or the opponent's (\<^verbatim>\<open>ai_move\<close>: fire along a clear row or column, else step in
  a shuffled order). Last, it advances and resolves every bullet.

  \<^bold>\<open>The theories\<close>, in import order, and what of the code each models:
  \<^item> \<open>Tank_Prelude\<close>: the constants \<open>TILE_SIZE\<close>, \<open>ROWS\<close>, \<open>COLS\<close> and the screen size;
    Python indexing \<open>xs[i]\<close> and assignment (\<open>py_get\<close>, \<open>py_set\<close>; \<open>IndexError\<close> is
    \<open>None\<close>) and \<open>range\<close> (\<open>py_range\<close>).
  \<^item> \<open>Maze\<close>: \<^verbatim>\<open>generate_maze\<close> as \<open>generate_maze\<close>, over an oracle \<open>rnd\<close> for the 20
    \<open>random.randint\<close> pairs; the cell access \<open>maze[y][x]\<close> as \<open>maze_get\<close>.
  \<^item> \<open>Tank\<close>: the \<^verbatim>\<open>Tank\<close> record, \<^verbatim>\<open>Tank.move\<close> as \<open>tank_move\<close>, and the rotation
    table of \<^verbatim>\<open>Tank.draw\<close> as \<open>direction_angle\<close>.
  \<^item> \<open>Bullet\<close>: the \<^verbatim>\<open>Bullet\<close> record, \<^verbatim>\<open>Bullet.move\<close>, and the bullet loop of the
    main loop (\<open>resolve_bullet\<close>, \<open>move_bullets\<close>, \<open>record_hits\<close>).
  \<^item> \<open>Opponent\<close>: \<^verbatim>\<open>ai_can_see_player\<close> and \<^verbatim>\<open>ai_move\<close>; the result of
    \<open>random.shuffle\<close> is an argument.
  \<^item> \<open>Session\<close>: the module globals as the record \<open>session\<close>; \<^verbatim>\<open>reset_game\<close>; start-up
    (\<open>init_session\<close>); the event loop (\<open>handle_events\<close>); the two turns
    (\<open>player_step\<close>, \<open>ai_step\<close>); the bullet pass (\<open>resolve_frame\<close>); one loop iteration
    (\<open>frame\<close>); and the loop itself (\<open>run_game\<close>).
  \<^item> \<open>Turns\<close>: the reachable sessions (\<open>reachable\<close>, an inductive predicate over every
    frame input), the session invariant \<open>session_inv\<close>, and the abstract turn controller
    \<open>turn_spec\<close> on \<open>phase\<close>s.
  \<^item> this theory: an end-to-end run, a property that spans the resolver and the maze, and
    quitting.

  \<^bold>\<open>How the model corresponds to the code.\<close> State is passed explicitly: every
  operation takes the globals it reads and returns the ones it writes. Every operation
  that indexes a list returns an \<open>option\<close>, so an \<open>IndexError\<close> of the code is \<open>None\<close>
  in the model. All loops of the code are bounded \<open>for\<close> loops over lists, modelled as
  structural recursion. \<^verbatim>\<open>while running:\<close> is a recursion over the list of frame
  inputs, so no fuel is needed. Randomness and the outside world enter as arguments: the
  \<open>randint\<close> oracle (\<open>valid_rnd\<close> says its values are in range), the shuffled step order,
  the event queue and the key state. Python integers are \<open>int\<close>.

  \<^bold>\<open>What is proved.\<close>
  \<^item> Maze: C1.
  \<^item> Tank moves: C2--C4.
  \<^item> Bullet resolver: equivalence with a filter/fold reference (C5), survivors on open
    cells (C6), the spec's one-tick example (C7), hit bullets are kept (C8).
  \<^item> Opponent: refinement of the line-of-sight check (C9), and the two branches and the
    invariant of \<open>ai_move\<close> (C10--C12).
  \<^item> Session: restart (C13), game over freezes the game (C14), the player's turn (C15),
    the player's turn as a walk along every held arrow, so several moves per frame (C16).
  \<^item> Running game: invariants of all reachable sessions (C17, C18), no frame raises
    (C19), refinement of the turn controller, whose steps are driven by the arrow keys,
    the restart click and an abstract hit of the frame, so that a hit ends the game (C20),
    a tank starts on a wall exactly when its start cell is drawn (C21),
    the loop is total (C22).
  \<^item> This theory: a shot along an open row wins (C23), and a tank standing on a wall
    cannot be hit (C24); a \<open>QUIT\<close> event ends the loop after its frame (C25).

  \<^bold>\<open>Not modelled.\<close>
  \<^item> Presentation: the window, sprites and fonts, \<open>draw_maze\<close>, \<^verbatim>\<open>Tank.draw\<close> and
    \<^verbatim>\<open>Bullet.draw\<close>. Only the rotation table of \<^verbatim>\<open>Tank.draw\<close> is modelled.
  \<^item> Timing: \<open>time.sleep\<close> and \<open>clock.tick\<close>.
  \<^item> Process exit: \<open>pygame.quit\<close> after the loop.
  The pygame library is trusted: \<open>collidepoint\<close> follows its documented semantics.
\<close>

section \<open>Frame inputs of a scripted run\<close>

text \<open>A frame with only the space key held and no events.\<close>

definition fire_input :: frame_input where
  "fire_input = idle_input\<lparr>pressed := \<lparr>key_left = False, key_right = False, key_up = False,
                                        key_down = False, key_space = True\<rparr>\<rparr>"

section \<open>Lemmas\<close>

lemma idle_frame:
  assumes "\<not> game_over s" and "player_turn s"
  shows "frame idle_input s = resolve_frame s"
  using assms by (cases s) (simp add: frame_def idle_input_def update_def player_step_def)

lemma fire_frame:
  assumes "\<not> game_over s" and "player_turn s"
  shows "frame fire_input s =
           resolve_frame (s\<lparr>bullets := bullets s @ [new_bullet (tank_x (player_tank s)) (tank_y (player_tank s))
                                                   (tank_dir (player_tank s)) (player_tank s)]\<rparr>)"
  using assms by (cases s) (simp add: frame_def fire_input_def idle_input_def update_def player_step_def)

lemma update_running:
  assumes "update k sh s = Some s'"
  shows "running s' = running s"
  using assms
  by (auto simp: update_def player_step_def ai_step_def resolve_frame_def Let_def
           split: if_splits option.splits prod.splits Option.bind_splits)

lemma frame_running:
  assumes "frame i s = Some s'"
  shows "running s' = (running s \<and> QUIT \<notin> set (events i))"
proof -
  obtain s1 where h: "handle_events (wall_rnd i) s (events i) = Some s1"
    and u: "update (pressed i) (shuffled i) s1 = Some s'"
    using assms by (auto simp: frame_def split: Option.bind_splits)
  have "running s1 = (running s \<and> QUIT \<notin> set (events i))"
    using h by (auto simp: handle_events_eq fresh_session_def split: if_splits)
  with update_running [OF u] show ?thesis by simp
qed

lemma shot_reaches:
  assumes "wf_maze (maze s)" and "\<not> game_over s" and "result_text s = ''''" and "player_turn s"
    and "running s" and "bullets s = [b]" and "is_player (owner b)" and "bullet_dir b = RIGHT"
    and "bullet_y b = tank_y (ai_tank s)" and "bullet_x b + int (Suc n) = tank_x (ai_tank s)"
    and "0 \<le> bullet_x b" and "tank_x (ai_tank s) < 15" and "0 \<le> bullet_y b" and "bullet_y b < 15"
    and "list_all (\<lambda>x. \<not> is_wall (maze s) (x, bullet_y b)) (py_range (bullet_x b + 1) (tank_x (ai_tank s) + 1))"
  shows "\<exists>s'. do { s1 \<leftarrow> resolve_frame s; run_game (replicate n idle_input) s1 } = Some s' \<and>
            game_over s' \<and> result_text s' = ''WIN''"
  using assms
proof (induction n arbitrary: s b)
  case 0
  let ?b = "bullet_move b"
  have pos: "bullet_x ?b = tank_x (ai_tank s)" "bullet_y ?b = tank_y (ai_tank s)"
    using "0.prems"(8-10) by (simp_all add: bullet_move_def)
  have sv: "survives (maze s) ?b"
    using "0.prems"(8-15) by (simp add: survives_def bullet_move_def in_grid_def bullet_pos_def py_range_def)
  have "is_hit (player_tank s) (ai_tank s) ?b"
    using pos "0.prems"(7) by (simp add: is_hit_def bullet_pos_def tank_pos_def)
  then show ?case
    using sv "0.prems"(1,6,7) by (simp add: resolve_frame_eq record_hits_eq hit_outcome_def)
next
  case (Suc n)
  let ?b = "bullet_move b"
  let ?s1 = "s\<lparr>bullets := [?b]\<rparr>"
  have bx: "bullet_x ?b = bullet_x b + 1" "bullet_y ?b = bullet_y b" "bullet_dir ?b = RIGHT" "owner ?b = owner b"
    using Suc.prems(8) by (simp_all add: bullet_move_def)
  have "bullet_x b + 1 \<in> set (py_range (bullet_x b + 1) (tank_x (ai_tank s) + 1))"
    using Suc.prems(10) by simp
  then have ow: "\<not> is_wall (maze s) (bullet_x b + 1, bullet_y b)"
    using Suc.prems(15) by (simp add: list_all_iff)
  have sv: "survives (maze s) ?b"
    using Suc.prems(10-14) bx ow by (auto simp: survives_def in_grid_def bullet_pos_def)
  have nh: "\<not> is_hit (player_tank s) (ai_tank s) ?b"
    using Suc.prems(7,9,10) bx by (auto simp: is_hit_def bullet_pos_def tank_pos_def)
  have r: "resolve_frame s = Some ?s1"
    using sv nh Suc.prems(1-3,6) by (simp add: resolve_frame_eq record_hits_eq)
  have f: "frame idle_input ?s1 = resolve_frame ?s1"
    by (rule idle_frame) (simp_all add: Suc.prems(2,4))
  have walls: "list_all (\<lambda>x. \<not> is_wall (maze ?s1) (x, bullet_y ?b)) (py_range (bullet_x ?b + 1) (tank_x (ai_tank ?s1) + 1))"
    using Suc.prems(15) bx by (simp add: list_all_iff py_range_def)
  obtain s' where "do { s2 \<leftarrow> resolve_frame ?s1; run_game (replicate n idle_input) s2 } = Some s'"
      "game_over s' \<and> result_text s' = ''WIN''"
    using Suc.IH [of ?s1 ?b] Suc.prems bx walls by auto
  with r f Suc.prems(5) show ?case by auto
qed


section \<open>End-to-end: a shot along an open row\<close>

text \<open>
  C23. End to end (spec section 8): in a session that satisfies the invariant, with the
  player to move, no bullets, the player facing \<open>RIGHT\<close> towards the opponent on the same
  row and every cell from the player's right neighbour up to and including the
  opponent's cell open, pressing space and then waiting one frame per remaining cell ends
  the game with \<open>WIN\<close>. The opponent never gets a turn, since firing does not end the
  player's turn.
\<close>

theorem player_shot_wins:
  assumes "session_inv s" and "running s" and "player_turn s" and "\<not> game_over s"
    and "bullets s = []"
    and "tank_y (player_tank s) = tank_y (ai_tank s)" and "tank_x (player_tank s) < tank_x (ai_tank s)"
    and "tank_dir (player_tank s) = RIGHT"
    and "list_all (\<lambda>x. \<not> is_wall (maze s) (x, tank_y (ai_tank s)))
           (py_range (tank_x (player_tank s) + 1) (tank_x (ai_tank s) + 1))"
  shows "\<exists>s'. run_game (fire_input # replicate (nat (tank_x (ai_tank s) - tank_x (player_tank s) - 1)) idle_input) s
              = Some s' \<and> game_over s' \<and> result_text s' = ''WIN''"
proof -
  let ?p = "player_tank s" and ?a = "ai_tank s"
  let ?b = "new_bullet (tank_x ?p) (tank_y ?p) (tank_dir ?p) ?p"
  let ?n = "nat (tank_x ?a - tank_x ?p - 1)"
  let ?s0 = "s\<lparr>bullets := [?b]\<rparr>"
  have inv: "wf_maze (maze s)" "on_board ?p" "on_board ?a" "is_player ?p" "result_text s = ''''"
    using assms(1,4) by (auto simp: session_inv_def tanks_ok_def outcome_ok_def)
  have f: "frame fire_input s = resolve_frame ?s0"
    using fire_frame [OF assms(4,3)] assms(5) by simp
  have "\<exists>s'. do { s1 \<leftarrow> resolve_frame ?s0; run_game (replicate ?n idle_input) s1 } = Some s' \<and>
            game_over s' \<and> result_text s' = ''WIN''"
    by (rule shot_reaches)
       (use inv assms(2-9) in \<open>auto simp: new_bullet_def on_board_def in_grid_def\<close>)
  then show ?thesis using f assms(2) by simp
qed

theorem player_shot_wins_witness:
  "\<exists>s'. run_game (fire_input # replicate 11 idle_input)
          (demo_session\<lparr>player_tank := \<lparr>tank_x = 1, tank_y = 13, is_player = True, tank_dir = RIGHT\<rparr>\<rparr>)
        = Some s' \<and> game_over s' \<and> result_text s' = ''WIN''"
proof -
  let ?s = "demo_session\<lparr>player_tank := \<lparr>tank_x = 1, tank_y = 13, is_player = True, tank_dir = RIGHT\<rparr>\<rparr>"
  have inv: "session_inv ?s"
    using no_wall_in_empty_maze [of 1 13] no_wall_in_empty_maze [of 13 13]
    by (simp add: session_inv_def tanks_ok_def outcome_ok_def demo_session_def wf_empty_maze
                  on_board_def new_tank_def in_grid_def tank_pos_def)
  have open_row: "list_all (\<lambda>x. \<not> is_wall (maze ?s) (x, tank_y (ai_tank ?s)))
           (py_range (tank_x (player_tank ?s) + 1) (tank_x (ai_tank ?s) + 1))"
  proof -
    have "\<not> is_wall empty_maze (x, 13)" if "2 \<le> x" and "x < 14" for x
      using no_wall_in_empty_maze [of x 13] that by (simp add: in_grid_def)
    then show ?thesis by (simp add: list_all_iff demo_session_def new_tank_def)
  qed
  have "nat (tank_x (ai_tank ?s) - tank_x (player_tank ?s) - 1) = 11"
    by (simp add: demo_session_def new_tank_def)
  with player_shot_wins [OF inv _ _ _ _ _ _ _ open_row] show ?thesis
    by (simp add: demo_session_def new_tank_def)
qed

section \<open>A tank on a wall cannot be hit\<close>

text \<open>
  C24. The resolver checks for a wall before it checks for a hit, so a bullet that enters
  the cell of a tank standing on a wall (possible at the start cells, C21) is removed and
  never records a hit: a player's shot can never win against an opponent standing on a
  wall. The spec does not discuss this case.
\<close>

theorem walled_tank_not_hit:
  assumes "wf_maze m" and "is_wall m (tank_pos ai)"
    and "move_bullets m player ai (False, '''') bs = Some (bs', st')"
  shows "st' \<noteq> (True, ''WIN'')"
proof -
  let ?bs = "filter (survives m) (map bullet_move bs)"
  let ?hs = "filter (is_hit player ai) ?bs"
  have e: "move_bullets m player ai (False, []) bs =
            Some (?bs, fold (record_hits player ai) ?bs (False, []))"
    by (rule move_bullets_eq [OF assms(1)])
  have "st' = fold (record_hits player ai) ?bs (False, [])"
    using e unfolding assms(3) by (simp only: option.inject prod.inject)
  also have "\<dots> = (if ?hs = [] then (False, []) else (True, hit_outcome (last ?hs)))"
    by (rule fold_record_hits)
  finally have st': "st' = (if ?hs = [] then (False, []) else (True, hit_outcome (last ?hs)))" .
  have "hit_outcome b \<noteq> ''WIN''" if "b \<in> set ?hs" for b
    using that assms(2) by (auto simp: is_hit_def survives_def hit_outcome_def)
  then show ?thesis using st' by (auto dest: last_in_set)
qed

theorem walled_tank_not_hit_witness:
  "snd (the (move_bullets (the (generate_maze (\<lambda>_. (13, 13)))) (new_tank 1 1 True) (new_tank 13 13 False)
      (False, '''') [new_bullet 12 13 RIGHT (new_tank 12 13 True)])) \<noteq> (True, ''WIN'')"
proof -
  have v: "valid_rnd (\<lambda>_. (13, 13))" by (simp add: valid_rnd_def wall_picks_def)
  obtain m where m: "generate_maze (\<lambda>_. (13, 13)) = Some m" "wf_maze m"
      "\<forall>x y. in_grid x y \<longrightarrow>
         maze_get m x y = Some (if (x, y) \<in> set (wall_picks (\<lambda>_. (13, 13))) then 1 else 0)"
    using generate_maze_spec [OF v] by blast
  have p: "(13, 13) \<in> set (wall_picks (\<lambda>_. (13, 13)))" by (simp add: wall_picks_def upt_rec)
  have w: "is_wall m (tank_pos (new_tank 13 13 False))"
    using m(3) p by (simp add: is_wall_def in_grid_def tank_pos_def new_tank_def)
  obtain r where r: "move_bullets m (new_tank 1 1 True) (new_tank 13 13 False) (False, '''')
                      [new_bullet 12 13 RIGHT (new_tank 12 13 True)] = Some r"
    by (simp add: move_bullets_eq [OF m(2)] del: move_bullets.simps)
  obtain bs' st' where rr: "r = (bs', st')" by (cases r)
  have "st' \<noteq> (True, ''WIN'')"
    using walled_tank_not_hit [OF m(2) w] r rr by blast
  with r rr m(1) show ?thesis by (simp del: move_bullets.simps)
qed

section \<open>Quitting\<close>

text \<open>
  C25. A \<open>QUIT\<close> event ends the loop: from a reachable running session a frame whose
  event queue holds \<open>QUIT\<close> returns a session with \<open>running\<close> cleared (a later restart
  click in the same queue does not set it again), and \<open>while running:\<close> performs no
  further frame, whatever inputs follow.
\<close>

theorem quit_stops_loop:
  assumes "reachable s" and "running s" and "valid_rnd (wall_rnd i)" and "QUIT \<in> set (events i)"
  shows "\<exists>s'. frame i s = Some s' \<and> \<not> running s' \<and> run_game (i # is) s = Some s'"
proof -
  obtain s' where f: "frame i s = Some s'"
    using frame_inv [OF reachable_inv [OF assms(1)] assms(3)] by blast
  have "\<not> running s'" using frame_running [OF f] assms(4) by simp
  moreover have "run_game is s' = Some s'" using \<open>\<not> running s'\<close> by (cases "is") simp_all
  ultimately show ?thesis using f assms(2) by simp
qed

theorem quit_stops_loop_witness:
  "\<exists>s'. frame (idle_input\<lparr>events := [QUIT]\<rparr>) (the (init_session start_rnd)) = Some s' \<and> \<not> running s' \<and>
     run_game [idle_input\<lparr>events := [QUIT]\<rparr>, idle_input] (the (init_session start_rnd)) = Some s'"
  by (rule quit_stops_loop [OF reachable_start_session])
     (simp_all add: start_session_fields idle_input_def valid_start_rnd)

end
